theory Spec2Isabelle
  imports Main "HOL-Library.Char_ord" "HOL-Library.List_Lexorder"
begin

section \<open>Python values shared by both programs\<close>

text \<open>
  The repository holds two programs: \<^verbatim>\<open>assignment_1/A.py\<close> (the FSA validator)
  and \<^verbatim>\<open>assignment_2/A.py\<close> (the FSA to regular expression translator).
  Many names occur in both, so every constant taken from the first program carries the
  prefix \<open>A1_\<close> and every constant taken from the second one the prefix \<open>A2_\<close>.

  Exceptions are values: a function that can raise returns \<open>py_error + 'a\<close>,
  with \<open>Inl\<close> for the exception. Python's recursion limit is not modelled.
  Text is modelled as \<open>string\<close> with one \<open>char\<close> per code point; the
  character classes below are those of the ASCII range, so the parsing functions
  describe ASCII input files.
\<close>

datatype py_error = AssertionError | ValueError | KeyError | IndexError

subsection \<open>Strings\<close>

definition isspace :: "char \<Rightarrow> bool" where
  "isspace c = (let k = (of_char c :: nat) in (9 \<le> k \<and> k \<le> 13) \<or> (28 \<le> k \<and> k \<le> 32))"

definition isdigit :: "char \<Rightarrow> bool" where
  "isdigit c = (let k = (of_char c :: nat) in 48 \<le> k \<and> k \<le> 57)"

definition ascii_letter :: "char \<Rightarrow> bool" where
  "ascii_letter c = (let k = (of_char c :: nat) in (65 \<le> k \<and> k \<le> 90) \<or> (97 \<le> k \<and> k \<le> 122))"

text \<open>\<^verbatim>\<open>s.strip()\<close>\<close>

definition strip :: "string \<Rightarrow> string" where
  "strip s = rev (dropWhile isspace (rev (dropWhile isspace s)))"

text \<open>\<^verbatim>\<open>s.startswith(p)\<close>\<close>

definition startswith :: "string \<Rightarrow> string \<Rightarrow> bool" where
  "startswith s p = (take (length p) s = p)"

text \<open>\<^verbatim>\<open>s.find(c)\<close> for a one-character \<open>c\<close>: the first index, or -1.\<close>

definition find_char :: "string \<Rightarrow> char \<Rightarrow> int" where
  "find_char s c = (if c \<in> set s then int (length (takeWhile (\<lambda>x. x \<noteq> c) s)) else - 1)"

text \<open>\<^verbatim>\<open>s[i: -1]\<close> for \<open>i \<ge> 0\<close>\<close>

definition slice_to_last :: "string \<Rightarrow> int \<Rightarrow> string" where
  "slice_to_last s i = drop (nat i) (butlast s)"

text \<open>\<^verbatim>\<open>s.split(c)\<close> for a one-character separator: never empty.\<close>

fun str_split :: "string \<Rightarrow> char \<Rightarrow> string list" where
  "str_split [] c = [[]]"
| "str_split (x # xs) c =
     (if x = c then [] # str_split xs c
      else (case str_split xs c of [] \<Rightarrow> [[x]] | p # ps \<Rightarrow> (x # p) # ps))"

text \<open>\<^verbatim>\<open>s1, a, s2 = parts\<close>: unpacking raises ValueError unless there are three parts.\<close>

fun unpack3 :: "'a list \<Rightarrow> py_error + ('a \<times> 'a \<times> 'a)" where
  "unpack3 [s1, a, s2] = Inr (s1, a, s2)"
| "unpack3 _ = Inl ValueError"


subsection \<open>Dictionaries that keep insertion order\<close>

text \<open>
  A Python dict is an association list with distinct keys, in insertion order:
  assigning to a new key appends an entry, assigning to an old key replaces its value
  in place.
\<close>

definition dict_in :: "'k \<Rightarrow> ('k \<times> 'v) list \<Rightarrow> bool" where
  "dict_in k d = (k \<in> set (map fst d))"

definition dict_getitem :: "'k \<Rightarrow> ('k \<times> 'v) list \<Rightarrow> py_error + 'v" where
  "dict_getitem k d = (case map_of d k of None \<Rightarrow> Inl KeyError | Some v \<Rightarrow> Inr v)"

definition dict_setitem :: "'k \<Rightarrow> 'v \<Rightarrow> ('k \<times> 'v) list \<Rightarrow> ('k \<times> 'v) list" where
  "dict_setitem k v d =
     (if dict_in k d then map (\<lambda>(k', v'). if k' = k then (k', v) else (k', v')) d
      else d @ [(k, v)])"

text \<open>\<^verbatim>\<open>d[k].append(x)\<close>\<close>

definition dict_append :: "'k \<Rightarrow> 'x \<Rightarrow> ('k \<times> 'x list) list \<Rightarrow> py_error + ('k \<times> 'x list) list" where
  "dict_append k x d =
     (case dict_getitem k d of
        Inl e \<Rightarrow> Inl e
      | Inr xs \<Rightarrow> Inr (dict_setitem k (xs @ [x]) d))"

text \<open>\<^verbatim>\<open>if k not in d: d[k] = []\<close>\<close>

definition dict_ensure :: "'k \<Rightarrow> ('k \<times> 'x list) list \<Rightarrow> ('k \<times> 'x list) list" where
  "dict_ensure k d = (if \<not> dict_in k d then dict_setitem k [] d else d)"

text \<open>A \<^verbatim>\<open>for\<close> loop whose body can raise: the first exception ends it.\<close>

fun for_each :: "('a \<Rightarrow> 's \<Rightarrow> py_error + 's) \<Rightarrow> 'a list \<Rightarrow> 's \<Rightarrow> py_error + 's" where
  "for_each body [] s = Inr s"
| "for_each body (x # xs) s =
     (case body x s of Inl e \<Rightarrow> Inl e | Inr s' \<Rightarrow> for_each body xs s')"

section \<open>Assignment 1: the validator\<close>

subsection \<open>Reading the five fields\<close>

definition A1_check_lines :: "string list \<Rightarrow> py_error + unit" where
  "A1_check_lines lines =
     (if length lines \<noteq> 5 then Inl AssertionError
      else if \<not> startswith (lines ! 0) ''states=['' then Inl AssertionError
      else if \<not> startswith (lines ! 1) ''alpha=['' then Inl AssertionError
      else if \<not> startswith (lines ! 2) ''init.st=['' then Inl AssertionError
      else if \<not> startswith (lines ! 3) ''fin.st=['' then Inl AssertionError
      else if \<not> startswith (lines ! 4) ''trans=['' then Inl AssertionError
      else Inr ())"

text \<open>\<^verbatim>\<open>el.isalnum()\<close> of \<^verbatim>\<open>str\<close>: false on the empty string.\<close>

definition A1_isalnum :: "string \<Rightarrow> bool" where
  "A1_isalnum s = (s \<noteq> [] \<and> list_all (\<lambda>c. isdigit c \<or> ascii_letter c) s)"

text \<open>\<^verbatim>\<open>lines[i].split(',') if lines[i] else []\<close>\<close>

definition field_items :: "string \<Rightarrow> string list" where
  "field_items l = (if l \<noteq> [] then str_split l CHR '','' else [])"

definition A1_parse_lines ::
  "string list \<Rightarrow> py_error + (string list \<times> string list \<times> string list \<times> string list \<times> string list)" where
  "A1_parse_lines lines0 =
     (let lines = filter (\<lambda>x. length x > 0) (map strip lines0) in
      case A1_check_lines lines of
        Inl e \<Rightarrow> Inl e
      | Inr _ \<Rightarrow>
         (let ls = map (\<lambda>l. slice_to_last l (find_char l CHR ''['' + 1)) lines;
              states = field_items (ls ! 0);
              alpha = field_items (ls ! 1);
              init_st = field_items (ls ! 2);
              fin_st = field_items (ls ! 3);
              tr = field_items (ls ! 4)
          in if \<not> list_all A1_isalnum states then Inl AssertionError
             else if \<not> list_all (\<lambda>el. A1_isalnum (filter (\<lambda>c. c \<noteq> CHR ''_'') el)) alpha
               then Inl AssertionError
             else if states = [] then Inl AssertionError
             else if alpha = [] then Inl AssertionError
             else Inr (states, alpha, init_st, fin_st, tr)))"

subsection \<open>The validator object\<close>

type_synonym adj = "(string \<times> (string \<times> string) list) list"

record A1_FSA_validator =
  A1_states :: "string list"
  A1_alpha :: "string list"
  A1_init_st :: "string list"
  A1_fin_st :: "string list"
  A1_trans :: "string list"
  A1_graph :: adj
  A1_undirected_graph :: adj

text \<open>\<^verbatim>\<open>FSA_validator.__init__\<close>: both graphs start empty.\<close>

definition A1_init ::
  "string list \<Rightarrow> string list \<Rightarrow> string list \<Rightarrow> string list \<Rightarrow> string list \<Rightarrow> A1_FSA_validator" where
  "A1_init states alpha init_st fin_st tr =
     \<lparr>A1_states = states, A1_alpha = alpha, A1_init_st = init_st, A1_fin_st = fin_st,
      A1_trans = tr, A1_graph = [], A1_undirected_graph = []\<rparr>"

text \<open>The body of the first loop of \<^verbatim>\<open>create_graphs\<close>, on the pair of graphs.\<close>

definition A1_add_transition :: "string list \<Rightarrow> string \<Rightarrow> adj \<times> adj \<Rightarrow> py_error + adj \<times> adj" where
  "A1_add_transition states el gs =
     (case unpack3 (str_split el CHR ''>'') of
        Inl e \<Rightarrow> Inl e
      | Inr (s1, a, s2) \<Rightarrow>
          if s1 \<notin> set states \<or> s2 \<notin> set states then Inr gs
          else
            (case dict_append s1 (s2, a) (dict_ensure s1 (fst gs)) of
               Inl e \<Rightarrow> Inl e
             | Inr g \<Rightarrow>
                (case dict_append s1 (s2, a) (dict_ensure s1 (snd gs)) of
                   Inl e \<Rightarrow> Inl e
                 | Inr ug \<Rightarrow>
                    (case dict_append s2 (s1, a) (dict_ensure s2 ug) of
                       Inl e \<Rightarrow> Inl e
                     | Inr ug' \<Rightarrow> Inr (g, ug')))))"

text \<open>The body of the second loop of \<^verbatim>\<open>create_graphs\<close>.\<close>

definition A1_add_state :: "string \<Rightarrow> adj \<times> adj \<Rightarrow> py_error + adj \<times> adj" where
  "A1_add_state el gs = Inr (dict_ensure el (fst gs), dict_ensure el (snd gs))"

definition A1_create_graphs :: "A1_FSA_validator \<Rightarrow> py_error + A1_FSA_validator" where
  "A1_create_graphs self =
     (case for_each (A1_add_transition (A1_states self)) (A1_trans self)
             (A1_graph self, A1_undirected_graph self) of
        Inl e \<Rightarrow> Inl e
      | Inr gs \<Rightarrow>
         (case for_each A1_add_state (A1_states self) gs of
            Inl e \<Rightarrow> Inl e
          | Inr gs' \<Rightarrow> Inr (self\<lparr>A1_graph := fst gs', A1_undirected_graph := snd gs'\<rparr>)))"

subsection \<open>The checks\<close>

text \<open>\<^verbatim>\<open>check_E1\<close>: the first undeclared initial state, else the first undeclared
  accepting state, else the empty string.\<close>

definition A1_check_E1 :: "A1_FSA_validator \<Rightarrow> string" where
  "A1_check_E1 self =
     (case find (\<lambda>el. el \<notin> set (A1_states self)) (A1_init_st self) of
        Some el \<Rightarrow> el
      | None \<Rightarrow>
         (case find (\<lambda>el. el \<notin> set (A1_states self)) (A1_fin_st self) of
            Some el \<Rightarrow> el
          | None \<Rightarrow> []))"

text \<open>
  \<^verbatim>\<open>DFS\<close> on one of the two graphs. \<open>A1_DFS_for\<close> is the \<^verbatim>\<open>for v in graph[u]\<close> loop,
  which carries the visited set over the recursive calls.
\<close>

function A1_DFS_on :: "adj \<Rightarrow> string \<Rightarrow> string set \<Rightarrow> py_error + string set"
  and A1_DFS_for :: "adj \<Rightarrow> (string \<times> string) list \<Rightarrow> string set \<Rightarrow> py_error + string set"
where
  "A1_DFS_on g u visited =
     (case dict_getitem u g of
        Inl e \<Rightarrow> Inl e
      | Inr vs \<Rightarrow> A1_DFS_for g vs (insert u visited))"
| "A1_DFS_for g [] visited = Inr visited"
| "A1_DFS_for g (v # vs) visited =
     (if fst v \<notin> visited
      then (case A1_DFS_on g (fst v) visited of
              Inl e \<Rightarrow> Inl e
            | Inr visited' \<Rightarrow> A1_DFS_for g vs visited')
      else A1_DFS_for g vs visited)"
  by pat_completeness auto

lemma A1_DFS_mono_dom:
  "A1_DFS_on_A1_DFS_for_dom (Inl (g, u, V)) \<Longrightarrow> A1_DFS_on g u V = Inr V' \<Longrightarrow> V \<subseteq> V'"
  "A1_DFS_on_A1_DFS_for_dom (Inr (g, vs, V)) \<Longrightarrow> A1_DFS_for g vs V = Inr V' \<Longrightarrow> V \<subseteq> V'"
proof (induction g u V and g vs V arbitrary: V' and V' rule: A1_DFS_on_A1_DFS_for.pinduct)
  case (1 g u visited)
  then show ?case
    by (auto simp: A1_DFS_on.psimps split: sum.splits)
next
  case (2 g visited)
  then show ?case by (simp add: A1_DFS_for.psimps)
next
  case (3 g v vs visited)
  show ?case
  proof (cases "fst v \<notin> visited")
    case True
    with "3.prems" "3.hyps" obtain W
      where W: "A1_DFS_on g (fst v) visited = Inr W" "A1_DFS_for g vs W = Inr V'"
      by (auto simp: A1_DFS_for.psimps split: sum.splits)
    from "3.IH"(1)[OF True W(1)] "3.IH"(2)[OF True W(1) W(2)] show ?thesis by blast
  next
    case False
    with "3.prems" "3.hyps" have "A1_DFS_for g vs visited = Inr V'"
      by (auto simp: A1_DFS_for.psimps)
    with "3.IH"(3) False show ?thesis by blast
  qed
qed

definition A1_DFS_measure ::
  "(adj \<times> string \<times> string set) + (adj \<times> (string \<times> string) list \<times> string set) \<Rightarrow> nat \<times> nat \<times> nat" where
  "A1_DFS_measure x =
     (case x of
        Inl (g, u, V) \<Rightarrow>
          (if u \<in> set (map fst g) then (card (set (map fst g) - insert u V), 2, 0) else (0, 0, 0))
      | Inr (g, vs, V) \<Rightarrow> (card (set (map fst g) - V), 1, length vs))"

termination A1_DFS_on
proof (relation "inv_image (less_than <*lex*> less_than <*lex*> less_than) A1_DFS_measure",
    goal_cases)
  case 1
  show ?case by (intro wf_inv_image wf_lex_prod wf_less_than)
next
  case (2 g u visited x2)
  then have "u \<in> set (map fst g)"
    by (auto simp: dict_getitem_def split: option.splits dest: map_of_SomeD intro: rev_image_eqI)
  then show ?case by (simp add: A1_DFS_measure_def)
next
  case (3 g v vs visited)
  show ?case
  proof (cases "fst v \<in> set (map fst g)")
    case True
    have "card (set (map fst g) - insert (fst v) visited) < card (set (map fst g) - visited)"
      by (rule psubset_card_mono) (use True 3 in auto)
    with True show ?thesis by (simp add: A1_DFS_measure_def)
  next
    case False
    then show ?thesis by (auto simp: A1_DFS_measure_def card_gt_0_iff)
  qed
next
  case (4 g v vs visited x2)
  then have "visited \<subseteq> x2" using A1_DFS_mono_dom(1) by blast
  then have "card (set (map fst g) - x2) \<le> card (set (map fst g) - visited)"
    by (intro card_mono) auto
  then show ?case by (auto simp: A1_DFS_measure_def)
next
  case (5 g v vs visited)
  show ?case by (simp add: A1_DFS_measure_def)
qed

declare A1_DFS_on.simps [simp del]

definition A1_DFS :: "A1_FSA_validator \<Rightarrow> string \<Rightarrow> string set \<Rightarrow> bool \<Rightarrow> py_error + string set" where
  "A1_DFS self u visited undirected =
     A1_DFS_on (if undirected then A1_undirected_graph self else A1_graph self) u visited"

text \<open>\<^verbatim>\<open>xs[0]\<close>\<close>

definition first_item :: "'a list \<Rightarrow> py_error + 'a" where
  "first_item xs = (case xs of [] \<Rightarrow> Inl IndexError | x # _ \<Rightarrow> Inr x)"

definition A1_check_E2 :: "A1_FSA_validator \<Rightarrow> py_error + bool" where
  "A1_check_E2 self =
     (case first_item (A1_states self) of
        Inl e \<Rightarrow> Inl e
      | Inr u \<Rightarrow>
         (case A1_DFS self u {} True of
            Inl e \<Rightarrow> Inl e
          | Inr visited \<Rightarrow> Inr (card visited \<noteq> length (A1_states self))))"

text \<open>\<^verbatim>\<open>check_E3\<close>: the symbol of the first transition whose symbol is not in the
  alphabet, else the empty string; every token before it is split.\<close>

fun check_symbols :: "string list \<Rightarrow> string list \<Rightarrow> py_error + string" where
  "check_symbols alpha [] = Inr []"
| "check_symbols alpha (el # els) =
     (case unpack3 (str_split el CHR ''>'') of
        Inl e \<Rightarrow> Inl e
      | Inr (s1, a, s2) \<Rightarrow> if a \<notin> set alpha then Inr a else check_symbols alpha els)"

definition A1_check_E3 :: "A1_FSA_validator \<Rightarrow> py_error + string" where
  "A1_check_E3 self = check_symbols (A1_alpha self) (A1_trans self)"

definition A1_check_E4 :: "A1_FSA_validator \<Rightarrow> bool" where
  "A1_check_E4 self = (length (A1_init_st self) = 0)"

definition A1_check_W1 :: "A1_FSA_validator \<Rightarrow> bool" where
  "A1_check_W1 self = (length (A1_fin_st self) = 0)"

definition A1_check_W2 :: "A1_FSA_validator \<Rightarrow> py_error + bool" where
  "A1_check_W2 self =
     (case first_item (A1_init_st self) of
        Inl e \<Rightarrow> Inl e
      | Inr u \<Rightarrow>
         (case A1_DFS self u {} False of
            Inl e \<Rightarrow> Inl e
          | Inr visited \<Rightarrow> Inr (card visited \<noteq> length (A1_states self))))"

definition A1_check_W3 :: "A1_FSA_validator \<Rightarrow> bool" where
  "A1_check_W3 self =
     list_ex (\<lambda>(u, es). list_ex (\<lambda>el. count_list (map snd es) el > 1) (A1_alpha self))
       (A1_graph self)"

text \<open>The \<^verbatim>\<open>for ... else\<close> loop that classifies completeness.\<close>

definition A1_completion :: "A1_FSA_validator \<Rightarrow> string" where
  "A1_completion self =
     (if list_ex (\<lambda>(u, es). card (set (map snd es)) < length (A1_alpha self)) (A1_graph self)
      then ''FSA is incomplete'' else ''FSA is complete'')"

definition A1_warnings :: "A1_FSA_validator \<Rightarrow> bool \<Rightarrow> string list" where
  "A1_warnings self w2 =
     (if A1_check_W1 self then [''W1: Accepting state is not defined''] else []) @
     (if w2 then [''W2: Some states are not reachable from the initial state''] else []) @
     (if A1_check_W3 self then [''W3: FSA is nondeterministic''] else [])"

text \<open>
  \<^verbatim>\<open>validate\<close> returns the triple (error, completion, warnings) and leaves the object
  in a new state, because \<^verbatim>\<open>create_graphs\<close> writes to both graphs.
\<close>

definition A1_validate ::
  "A1_FSA_validator \<Rightarrow> py_error + ((string \<times> string \<times> string list) \<times> A1_FSA_validator)" where
  "A1_validate self =
     (let faulty_state = A1_check_E1 self in
      if faulty_state \<noteq> []
      then Inr ((''E1: A state '' @ [CHR 0x27] @ faulty_state @ [CHR 0x27] @
                   '' is not in the set of states'', [], []), self)
      else
        (case A1_create_graphs self of
           Inl e \<Rightarrow> Inl e
         | Inr self1 \<Rightarrow>
            (case A1_check_E2 self1 of
               Inl e \<Rightarrow> Inl e
             | Inr e2 \<Rightarrow>
                if e2 then Inr ((''E2: Some states are disjoint'', [], []), self1)
                else
                  (case A1_check_E3 self1 of
                     Inl e \<Rightarrow> Inl e
                   | Inr faulty_alpha \<Rightarrow>
                      if faulty_alpha \<noteq> []
                      then Inr ((''E3: A transition '' @ [CHR 0x27] @ faulty_alpha @ [CHR 0x27] @
                                   '' is not represented in the alphabet'', [], []), self1)
                      else if A1_check_E4 self1
                      then Inr ((''E4: Initial state is not defined'', [], []), self1)
                      else
                        (case A1_check_W2 self1 of
                           Inl e \<Rightarrow> Inl e
                         | Inr w2 \<Rightarrow>
                            Inr (([], A1_completion self1, A1_warnings self1 w2), self1))))))"

text \<open>
  \<^verbatim>\<open>main\<close>, from the lines of \<^verbatim>\<open>fsa.txt\<close> to the text written to
  \<^verbatim>\<open>result.txt\<close>; \<open>Inl\<close> is an exception that leaves \<^verbatim>\<open>main\<close>.
\<close>

definition A1_main :: "string list \<Rightarrow> py_error + string" where
  "A1_main lines =
     (case A1_parse_lines lines of
        Inl AssertionError \<Rightarrow> Inr (''Error:'' @ [CHR 0x0A] @ ''E5: Input file is malformed'' @ [CHR 0x0A])
      | Inl e \<Rightarrow> Inl e
      | Inr (states, alpha, init_st, fin_st, tr) \<Rightarrow>
         (case A1_validate (A1_init states alpha init_st fin_st tr) of
            Inl e \<Rightarrow> Inl e
          | Inr ((error, completion, warnings), _) \<Rightarrow>
             if error \<noteq> [] then Inr (''Error:'' @ [CHR 0x0A] @ error @ [CHR 0x0A])
             else Inr (completion @ [CHR 0x0A] @
                       (if warnings \<noteq> []
                        then ''Warning:'' @ [CHR 0x0A] @ concat (map (\<lambda>warn. warn @ [CHR 0x0A]) warnings)
                        else []))))"

section \<open>Assignment 2: the translator to regular expressions\<close>

subsection \<open>Reading the five fields\<close>




subsection \<open>The automaton object\<close>

type_synonym matrix = "string list list list"

record A2_FSA =
  A2_states :: "string list"
  A2_alpha :: "string list"
  A2_initial :: "string list"
  A2_accepting :: "string list"
  A2_trans :: "string list"
  A2_n :: nat
  A2_state2id :: "(string \<times> nat) list"
  A2_id2state :: "(nat \<times> string) list"
  A2_graph :: matrix
  A2_undirected_graph :: matrix

text \<open>\<^verbatim>\<open>xs[i]\<close> for an index that is not negative\<close>

definition list_getitem :: "'a list \<Rightarrow> nat \<Rightarrow> py_error + 'a" where
  "list_getitem xs i = (if i < length xs then Inr (xs ! i) else Inl IndexError)"

text \<open>\<^verbatim>\<open>m[i][j]\<close>\<close>

definition matrix_get :: "'a list list \<Rightarrow> nat \<Rightarrow> nat \<Rightarrow> py_error + 'a" where
  "matrix_get m i j =
     (case list_getitem m i of Inl e \<Rightarrow> Inl e | Inr row \<Rightarrow> list_getitem row j)"

text \<open>\<^verbatim>\<open>g[state2id[s1]][state2id[s2]].append(a)\<close>, evaluated from left to right.\<close>

definition A2_append_edge ::
  "(string \<times> nat) list \<Rightarrow> string \<Rightarrow> string \<Rightarrow> string \<Rightarrow> matrix \<Rightarrow> py_error + matrix" where
  "A2_append_edge state2id s1 s2 a g =
     (case dict_getitem s1 state2id of
        Inl e \<Rightarrow> Inl e
      | Inr i \<Rightarrow>
         (case list_getitem g i of
            Inl e \<Rightarrow> Inl e
          | Inr row \<Rightarrow>
             (case dict_getitem s2 state2id of
                Inl e \<Rightarrow> Inl e
              | Inr j \<Rightarrow>
                 (case list_getitem row j of
                    Inl e \<Rightarrow> Inl e
                  | Inr cell \<Rightarrow> Inr (g[i := row[j := cell @ [a]]])))))"

text \<open>The body of the loop of \<^verbatim>\<open>__create_graphs\<close>, on the pair of graphs.\<close>

definition A2_add_transition ::
  "(string \<times> nat) list \<Rightarrow> string \<Rightarrow> matrix \<times> matrix \<Rightarrow> py_error + matrix \<times> matrix" where
  "A2_add_transition state2id el gs =
     (case unpack3 (str_split el CHR ''>'') of
        Inl e \<Rightarrow> Inl e
      | Inr (s1, a, s2) \<Rightarrow>
         (case A2_append_edge state2id s1 s2 a (fst gs) of
            Inl e \<Rightarrow> Inl e
          | Inr g \<Rightarrow>
             (case A2_append_edge state2id s1 s2 a (snd gs) of
                Inl e \<Rightarrow> Inl e
              | Inr ug \<Rightarrow>
                 (case A2_append_edge state2id s2 s1 a ug of
                    Inl e \<Rightarrow> Inl e
                  | Inr ug' \<Rightarrow> Inr (g, ug')))))"

definition A2_create_graphs :: "A2_FSA \<Rightarrow> py_error + A2_FSA" where
  "A2_create_graphs self =
     (case for_each (A2_add_transition (A2_state2id self)) (A2_trans self)
             (A2_graph self, A2_undirected_graph self) of
        Inl e \<Rightarrow> Inl e
      | Inr gs \<Rightarrow> Inr (self\<lparr>A2_graph := fst gs, A2_undirected_graph := snd gs\<rparr>))"

text \<open>\<^verbatim>\<open>FSA.__init__\<close>: the two dictionaries, two empty n by n tables, then the graphs.\<close>

definition A2_init ::
  "string list \<Rightarrow> string list \<Rightarrow> string list \<Rightarrow> string list \<Rightarrow> string list \<Rightarrow> py_error + A2_FSA" where
  "A2_init states alpha initial accepting tr =
     (let n = length states in
      A2_create_graphs
        \<lparr>A2_states = states, A2_alpha = alpha, A2_initial = initial, A2_accepting = accepting,
         A2_trans = tr, A2_n = n,
         A2_state2id = fold (\<lambda>i d. dict_setitem (states ! i) i d) [0..<n] [],
         A2_id2state = fold (\<lambda>i d. dict_setitem i (states ! i) d) [0..<n] [],
         A2_graph = replicate n (replicate n []),
         A2_undirected_graph = replicate n (replicate n [])\<rparr>)"

subsection \<open>The checks\<close>

definition A2_check_E2 :: "A2_FSA \<Rightarrow> bool" where
  "A2_check_E2 self = (length (A2_initial self) = 0)"

definition A2_check_E3 :: "A2_FSA \<Rightarrow> bool" where
  "A2_check_E3 self = (length (A2_accepting self) = 0)"

text \<open>The third loop of \<^verbatim>\<open>__check_E4\<close>, over the transitions.\<close>

fun check_endpoints :: "string list \<Rightarrow> string list \<Rightarrow> py_error + string" where
  "check_endpoints states [] = Inr []"
| "check_endpoints states (el # els) =
     (case unpack3 (str_split el CHR ''>'') of
        Inl e \<Rightarrow> Inl e
      | Inr (s1, a, s2) \<Rightarrow>
          if s1 \<notin> set states then Inr s1
          else if s2 \<notin> set states then Inr s2
          else check_endpoints states els)"

definition A2_check_E4 :: "A2_FSA \<Rightarrow> py_error + string" where
  "A2_check_E4 self =
     (case find (\<lambda>el. el \<notin> set (A2_states self)) (A2_initial self) of
        Some el \<Rightarrow> Inr el
      | None \<Rightarrow>
         (case find (\<lambda>el. el \<notin> set (A2_states self)) (A2_accepting self) of
            Some el \<Rightarrow> Inr el
          | None \<Rightarrow> check_endpoints (A2_states self) (A2_trans self)))"

definition A2_check_E5 :: "A2_FSA \<Rightarrow> py_error + string" where
  "A2_check_E5 self = check_symbols (A2_alpha self) (A2_trans self)"

text \<open>
  \<^verbatim>\<open>__DFS\<close>. \<open>A2_DFS_for\<close> is the loop \<^verbatim>\<open>for v in range(self.__n)\<close> from
  \<open>v\<close> on; the test \<^verbatim>\<open>id2state[v] not in visited and g[state2id[u]][v]\<close> reads
  the table only when its first half holds.
\<close>

function A2_DFS :: "A2_FSA \<Rightarrow> matrix \<Rightarrow> string \<Rightarrow> string set \<Rightarrow> py_error + string set"
  and A2_DFS_for :: "A2_FSA \<Rightarrow> matrix \<Rightarrow> string \<Rightarrow> nat \<Rightarrow> string set \<Rightarrow> py_error + string set"
where
  "A2_DFS self g u visited = A2_DFS_for self g u 0 (insert u visited)"
| "A2_DFS_for self g u v visited =
     (if v < A2_n self
      then
        (case dict_getitem v (A2_id2state self) of
           Inl e \<Rightarrow> Inl e
         | Inr sv \<Rightarrow>
            if sv \<notin> visited
            then
              (case dict_getitem u (A2_state2id self) of
                 Inl e \<Rightarrow> Inl e
               | Inr iu \<Rightarrow>
                  (case matrix_get g iu v of
                     Inl e \<Rightarrow> Inl e
                   | Inr syms \<Rightarrow>
                      if syms \<noteq> []
                      then
                        (case A2_DFS self g sv visited of
                           Inl e \<Rightarrow> Inl e
                         | Inr visited' \<Rightarrow> A2_DFS_for self g u (Suc v) visited')
                      else A2_DFS_for self g u (Suc v) visited))
            else A2_DFS_for self g u (Suc v) visited)
      else Inr visited)"
  by pat_completeness auto

lemma A2_DFS_mono_dom:
  "A2_DFS_A2_DFS_for_dom (Inl (self, g, u, V)) \<Longrightarrow> A2_DFS self g u V = Inr V' \<Longrightarrow> V \<subseteq> V'"
  "A2_DFS_A2_DFS_for_dom (Inr (self, g, u, v, V)) \<Longrightarrow> A2_DFS_for self g u v V = Inr V' \<Longrightarrow> V \<subseteq> V'"
proof (induction self g u V and self g u v V arbitrary: V' and V'
    rule: A2_DFS_A2_DFS_for.pinduct)
  case (1 self g u visited)
  from "1.prems" "1.hyps" have "A2_DFS_for self g u 0 (insert u visited) = Inr V'"
    by (simp add: A2_DFS.psimps)
  from "1.IH"[OF this] show ?case by blast
next
  case (2 self g u v visited)
  note eq = "2.prems"[unfolded A2_DFS_for.psimps[OF "2.hyps"]]
  show ?case
  proof (cases "v < A2_n self")
    case False
    with eq show ?thesis by simp
  next
    case lt: True
    with eq obtain sv where sv: "dict_getitem v (A2_id2state self) = Inr sv"
      by (auto split: sum.splits)
    show ?thesis
    proof (cases "sv \<notin> visited")
      case False
      with eq lt sv have "A2_DFS_for self g u (Suc v) visited = Inr V'" by simp
      from "2.IH"(4)[OF lt sv False this] show ?thesis .
    next
      case nv: True
      with eq lt sv obtain iu syms where
        iu: "dict_getitem u (A2_state2id self) = Inr iu" and
        syms: "matrix_get g iu v = Inr syms"
        by (auto split: sum.splits)
      show ?thesis
      proof (cases "syms \<noteq> []")
        case False
        with eq lt sv nv iu syms have "A2_DFS_for self g u (Suc v) visited = Inr V'" by simp
        from "2.IH"(3)[OF lt sv nv iu syms False this] show ?thesis .
      next
        case ne: True
        with eq lt sv nv iu syms obtain W where
          W: "A2_DFS self g sv visited = Inr W" "A2_DFS_for self g u (Suc v) W = Inr V'"
          by (auto split: sum.splits)
        from "2.IH"(1)[OF lt sv nv iu syms ne W(1)]
          "2.IH"(2)[OF lt sv nv iu syms ne W(1) W(2)]
        show ?thesis by blast
      qed
    qed
  qed
qed

definition A2_DFS_measure ::
  "(A2_FSA \<times> matrix \<times> string \<times> string set) + (A2_FSA \<times> matrix \<times> string \<times> nat \<times> string set)
     \<Rightarrow> nat \<times> nat \<times> nat" where
  "A2_DFS_measure x =
     (case x of
        Inl (self, g, u, V) \<Rightarrow> (card (set (map snd (A2_id2state self)) - insert u V), 2, 0)
      | Inr (self, g, u, v, V) \<Rightarrow> (card (set (map snd (A2_id2state self)) - V), 1, A2_n self - v))"

termination A2_DFS
proof (relation "inv_image (less_than <*lex*> less_than <*lex*> less_than) A2_DFS_measure",
    goal_cases)
  case 1
  show ?case by (intro wf_inv_image wf_lex_prod wf_less_than)
next
  case (2 self g u visited)
  show ?case by (simp add: A2_DFS_measure_def)
next
  case (3 self g u v visited sv iu syms)
  from 3(2) have "sv \<in> set (map snd (A2_id2state self))"
    by (auto simp: dict_getitem_def split: option.splits dest: map_of_SomeD intro: rev_image_eqI)
  with 3(3) have "card (set (map snd (A2_id2state self)) - insert sv visited)
      < card (set (map snd (A2_id2state self)) - visited)"
    by (intro psubset_card_mono) auto
  then show ?case by (simp add: A2_DFS_measure_def)
next
  case (4 self g u v visited sv iu syms W)
  then have "visited \<subseteq> W" using A2_DFS_mono_dom(1) by blast
  then have "card (set (map snd (A2_id2state self)) - W)
      \<le> card (set (map snd (A2_id2state self)) - visited)"
    by (intro card_mono) auto
  with 4(1) show ?case by (auto simp: A2_DFS_measure_def)
next
  case (5 self g u v visited sv iu syms)
  then show ?case by (auto simp: A2_DFS_measure_def)
next
  case (6 self g u v visited sv)
  then show ?case by (auto simp: A2_DFS_measure_def)
qed

declare A2_DFS.simps [simp del] A2_DFS_for.simps [simp del]

definition A2_check_E6 :: "A2_FSA \<Rightarrow> py_error + bool" where
  "A2_check_E6 self =
     (case first_item (A2_initial self) of
        Inl e \<Rightarrow> Inl e
      | Inr u \<Rightarrow>
         (case A2_DFS self (A2_undirected_graph self) u {} of
            Inl e \<Rightarrow> Inl e
          | Inr visited \<Rightarrow> Inr (card visited \<noteq> length (A2_states self))))"

text \<open>A list comprehension whose element expression can raise.\<close>

fun map_err :: "('a \<Rightarrow> py_error + 'b) \<Rightarrow> 'a list \<Rightarrow> py_error + 'b list" where
  "map_err f [] = Inr []"
| "map_err f (x # xs) =
     (case f x of
        Inl e \<Rightarrow> Inl e
      | Inr y \<Rightarrow> (case map_err f xs of Inl e \<Rightarrow> Inl e | Inr ys \<Rightarrow> Inr (y # ys)))"

text \<open>The list \<^verbatim>\<open>lst\<close> that \<^verbatim>\<open>__check_E7\<close> collects for the row \<open>u\<close>.\<close>

definition A2_row_symbols :: "A2_FSA \<Rightarrow> nat \<Rightarrow> py_error + string list" where
  "A2_row_symbols self u =
     (case map_err (\<lambda>v. matrix_get (A2_graph self) u v) [0..<A2_n self] of
        Inl e \<Rightarrow> Inl e
      | Inr cells \<Rightarrow> Inr (concat cells))"

fun A2_check_E7_from :: "A2_FSA \<Rightarrow> nat list \<Rightarrow> py_error + bool" where
  "A2_check_E7_from self [] = Inr False"
| "A2_check_E7_from self (u # us) =
     (case A2_row_symbols self u of
        Inl e \<Rightarrow> Inl e
      | Inr lst \<Rightarrow>
          if list_ex (\<lambda>el. count_list lst el > 1) (A2_alpha self) then Inr True
          else A2_check_E7_from self us)"

definition A2_check_E7 :: "A2_FSA \<Rightarrow> py_error + bool" where
  "A2_check_E7 self = A2_check_E7_from self [0..<A2_n self]"

definition A2_validate :: "A2_FSA \<Rightarrow> py_error + string" where
  "A2_validate self =
     (if A2_check_E2 self then Inr ''E2: Initial state is not defined''
      else if A2_check_E3 self then Inr ''E3: Set of accepting states is empty''
      else
        (case A2_check_E4 self of
           Inl e \<Rightarrow> Inl e
         | Inr faulty_state \<Rightarrow>
            if faulty_state \<noteq> []
            then Inr (''E4: A state '' @ [CHR 0x27] @ faulty_state @ [CHR 0x27] @
                        '' is not in the set of states'')
            else
              (case A2_check_E5 self of
                 Inl e \<Rightarrow> Inl e
               | Inr faulty_alpha \<Rightarrow>
                  if faulty_alpha \<noteq> []
                  then Inr (''E5: A transition '' @ [CHR 0x27] @ faulty_alpha @ [CHR 0x27] @
                              '' is not represented in the alphabet'')
                  else
                    (case A2_check_E6 self of
                       Inl e \<Rightarrow> Inl e
                     | Inr e6 \<Rightarrow>
                        if e6 then Inr ''E6: Some states are disjoint''
                        else
                          (case A2_check_E7 self of
                             Inl e \<Rightarrow> Inl e
                           | Inr e7 \<Rightarrow>
                              if e7 then Inr ''E7: FSA is nondeterministic'' else Inr [])))))"

subsection \<open>Kleene's algorithm\<close>











section \<open>Harness definitions used by the properties\<close>

text \<open>Two calls of \<^verbatim>\<open>validate\<close> in succession on one object: the second call sees
  the object as the first one left it.\<close>

definition A1_validate_twice ::
  "A1_FSA_validator \<Rightarrow>
     py_error + ((string \<times> string \<times> string list) \<times> (string \<times> string \<times> string list))" where
  "A1_validate_twice self =
     (case A1_validate self of
        Inl e \<Rightarrow> Inl e
      | Inr (r1, self1) \<Rightarrow>
         (case A1_validate self1 of
            Inl e \<Rightarrow> Inl e
          | Inr (r2, self2) \<Rightarrow> Inr (r1, r2)))"

definition lookup0 :: "('k \<times> 'x list) list \<Rightarrow> 'k \<Rightarrow> 'x list" where
  "lookup0 d k = (case map_of d k of None \<Rightarrow> [] | Some xs \<Rightarrow> xs)"

definition dict_add :: "'k \<Rightarrow> 'x \<Rightarrow> ('k \<times> 'x list) list \<Rightarrow> ('k \<times> 'x list) list" where
  "dict_add k x d = dict_setitem k (lookup0 d k @ [x]) (dict_ensure k d)"

definition triples :: "string list \<Rightarrow> (string \<times> string \<times> string) list" where
  "triples tr =
     concat (map (\<lambda>el. case unpack3 (str_split el CHR ''>'') of Inl e \<Rightarrow> [] | Inr t \<Rightarrow> [t]) tr)"

definition well_formed :: "string list \<Rightarrow> bool" where
  "well_formed tr = list_all (\<lambda>el. length (str_split el CHR ''>'') = 3) tr"

definition kept :: "string list \<Rightarrow> string list \<Rightarrow> (string \<times> string \<times> string) list" where
  "kept sts tr = filter (\<lambda>(s1, a, s2). s1 \<in> set sts \<and> s2 \<in> set sts) (triples tr)"

definition out_edges :: "(string \<times> string \<times> string) list \<Rightarrow> string \<Rightarrow> (string \<times> string) list" where
  "out_edges ts u = concat (map (\<lambda>(s1, a, s2). if s1 = u then [(s2, a)] else []) ts)"

definition und_edges :: "(string \<times> string \<times> string) list \<Rightarrow> string \<Rightarrow> (string \<times> string) list" where
  "und_edges ts u =
     concat (map (\<lambda>(s1, a, s2). (if s1 = u then [(s2, a)] else []) @ (if s2 = u then [(s1, a)] else [])) ts)"

fun add_all :: "(string \<times> string \<times> string) list \<Rightarrow> adj \<times> adj \<Rightarrow> adj \<times> adj" where
  "add_all [] gs = gs"
| "add_all ((s1, a, s2) # ts) gs =
     add_all ts (dict_add s1 (s2, a) (fst gs), dict_add s2 (s1, a) (dict_add s1 (s2, a) (snd gs)))"

definition built :: "string list \<Rightarrow> string list \<Rightarrow> adj \<times> adj \<Rightarrow> adj \<times> adj" where
  "built sts tr gs =
     fold (\<lambda>el gs. (dict_ensure el (fst gs), dict_ensure el (snd gs))) sts (add_all (kept sts tr) gs)"

text \<open>The edge relation of a graph held in a dictionary\<close>

definition adj_rel :: "adj \<Rightarrow> (string \<times> string) set" where
  "adj_rel g = {(u, v). v \<in> fst ` set (lookup0 g u)}"

definition closed_graph :: "adj \<Rightarrow> bool" where
  "closed_graph g = (\<forall>u v. (u, v) \<in> adj_rel g \<longrightarrow> dict_in v g)"

definition und_rel :: "string list \<Rightarrow> string list \<Rightarrow> (string \<times> string) set" where
  "und_rel sts tr =
     {(s1, s2). \<exists>a. (s1, a, s2) \<in> set (kept sts tr) \<or> (s2, a, s1) \<in> set (kept sts tr)}"

definition disjoint_states :: "string list \<Rightarrow> string list \<Rightarrow> bool" where
  "disjoint_states sts tr = (\<exists>x\<in>set sts. \<exists>y\<in>set sts. (x, y) \<notin> (und_rel sts tr)\<^sup>*)"

definition A1_validate_result :: "A1_FSA_validator \<Rightarrow> py_error + (string \<times> string \<times> string list)" where
  "A1_validate_result self = (case A1_validate self of Inl e \<Rightarrow> Inl e | Inr (r, self') \<Rightarrow> Inr r)"

text \<open>The first identifier of a list that is not a declared state.\<close>

definition first_undeclared :: "string list \<Rightarrow> string list \<Rightarrow> string option" where
  "first_undeclared sts xs = find (\<lambda>el. el \<notin> set sts) xs"

text \<open>What holds of every object that the constructor returns\<close>

definition A2_wf :: "A2_FSA \<Rightarrow> bool" where
  "A2_wf self \<longleftrightarrow>
     A2_n self = length (A2_states self) \<and>
     (\<forall>s i. map_of (A2_state2id self) s = Some i \<longrightarrow> i < A2_n self \<and> A2_states self ! i = s) \<and>
     (\<forall>s. s \<in> set (A2_states self) \<longrightarrow> dict_in s (A2_state2id self)) \<and>
     (\<forall>i. map_of (A2_id2state self) i = (if i < A2_n self then Some (A2_states self ! i) else None))"

definition square :: "nat \<Rightarrow> 'a list list \<Rightarrow> bool" where
  "square n m \<longleftrightarrow> length m = n \<and> (\<forall>row\<in>set m. length row = n)"

definition cell_syms ::
  "(string \<Rightarrow> nat option) \<Rightarrow> (string \<times> string \<times> string) list \<Rightarrow> nat \<Rightarrow> nat \<Rightarrow> string list" where
  "cell_syms idx ts i j =
     concat (map (\<lambda>(s1, a, s2). if idx s1 = Some i \<and> idx s2 = Some j then [a] else []) ts)"

definition und_cell_syms ::
  "(string \<Rightarrow> nat option) \<Rightarrow> (string \<times> string \<times> string) list \<Rightarrow> nat \<Rightarrow> nat \<Rightarrow> string list" where
  "und_cell_syms idx ts i j =
     concat (map (\<lambda>(s1, a, s2). (if idx s1 = Some i \<and> idx s2 = Some j then [a] else []) @
                                  (if idx s2 = Some i \<and> idx s1 = Some j then [a] else [])) ts)"

text \<open>The edges that the search of the second program follows\<close>

definition A2_adj :: "A2_FSA \<Rightarrow> matrix \<Rightarrow> (string \<times> string) set" where
  "A2_adj self g =
     {(u, sv). \<exists>v iu. v < A2_n self \<and> A2_states self ! v = sv \<and>
                      map_of (A2_state2id self) u = Some iu \<and> g ! iu ! v \<noteq> []}"

definition out_symbols :: "string list \<Rightarrow> string list \<Rightarrow> string \<Rightarrow> string set" where
  "out_symbols sts tr u = {a. \<exists>s2. (u, a, s2) \<in> set (kept sts tr)}"

definition remove_edge :: "nat \<Rightarrow> 'a list \<Rightarrow> 'a list" where
  "remove_edge i xs = take i xs @ drop (Suc i) xs"

definition is_edge :: "string list \<Rightarrow> string \<Rightarrow> bool" where
  "is_edge sts el =
     (case unpack3 (str_split el CHR ''>'') of
        Inl e \<Rightarrow> False
      | Inr (s1, a, s2) \<Rightarrow> s1 \<in> set sts \<and> s2 \<in> set sts)"

definition row_syms ::
  "(string \<Rightarrow> nat option) \<Rightarrow> (string \<times> string \<times> string) list \<Rightarrow> nat \<Rightarrow> string list" where
  "row_syms idx ts u = concat (map (\<lambda>(s1, a, s2). if idx s1 = Some u then [a] else []) ts)"


section \<open>Properties\<close>

subsection \<open>Which exceptions can occur\<close>

lemma for_each_error:
  assumes "for_each body xs s = Inl e"
  shows "\<exists>x s'. body x s' = Inl e"
  using assms
  by (induction xs arbitrary: s) (auto split: sum.splits)

lemma unpack3_error: "unpack3 xs = Inl e \<Longrightarrow> e = ValueError"
  by (cases xs rule: unpack3.cases) auto

lemma dict_getitem_error: "dict_getitem k d = Inl e \<Longrightarrow> e = KeyError"
  by (auto simp: dict_getitem_def split: option.splits)

lemma dict_append_error: "dict_append k x d = Inl e \<Longrightarrow> e = KeyError"
  by (auto simp: dict_append_def split: sum.splits dest: dict_getitem_error)

lemma A1_add_transition_error:
  "A1_add_transition sts el gs = Inl e \<Longrightarrow> e = ValueError \<or> e = KeyError"
  by (auto simp: A1_add_transition_def split: sum.splits if_splits prod.splits
      dest: unpack3_error dict_append_error)

lemma A1_create_graphs_error:
  "A1_create_graphs self = Inl e \<Longrightarrow> e = ValueError \<or> e = KeyError"
  by (auto simp: A1_create_graphs_def A1_add_state_def split: sum.splits
      dest!: for_each_error dest: A1_add_transition_error)

lemma A1_DFS_on_error:
  "A1_DFS_on g u V = Inl e \<Longrightarrow> e = KeyError"
  "A1_DFS_for g vs V = Inl e \<Longrightarrow> e = KeyError"
  by (induction g u V and g vs V rule: A1_DFS_on_A1_DFS_for.induct)
    (auto simp: A1_DFS_on.simps split: sum.splits if_splits dest: dict_getitem_error)

lemma check_symbols_error: "check_symbols al els = Inl e \<Longrightarrow> e = ValueError"
  by (induction al els rule: check_symbols.induct)
    (auto split: sum.splits if_splits prod.splits dest: unpack3_error)

lemma first_item_error: "first_item xs = Inl e \<Longrightarrow> xs = [] \<and> e = IndexError"
  by (auto simp: first_item_def split: list.splits)

lemma A1_create_graphs_fields:
  "A1_create_graphs self = Inr self' \<Longrightarrow>
     A1_states self' = A1_states self \<and> A1_alpha self' = A1_alpha self \<and>
     A1_init_st self' = A1_init_st self \<and> A1_fin_st self' = A1_fin_st self \<and>
     A1_trans self' = A1_trans self"
  by (auto simp: A1_create_graphs_def split: sum.splits)

subsection \<open>List accesses of the validator\<close>

text \<open>
  Claim C10. In the validator, \<^verbatim>\<open>validate\<close> subscripts a list in two places:
  \<^verbatim>\<open>self.__states[0]\<close> in \<^verbatim>\<open>check_E2\<close> and \<^verbatim>\<open>self.__init_st[0]\<close> in
  \<^verbatim>\<open>check_W2\<close>. When the list of states is not empty, as \<^verbatim>\<open>parse_lines\<close>
  asserts, \<^verbatim>\<open>validate\<close> never ends with IndexError, whatever the state of the
  two graphs: the first access is in range by the hypothesis and the second is reached
  only after \<^verbatim>\<open>check_E4\<close> found the list of initial states not empty.
\<close>

theorem A1_validate_no_IndexError:
  assumes "A1_states self \<noteq> []"
  shows "A1_validate self \<noteq> Inl IndexError"
proof
  assume v: "A1_validate self = Inl IndexError"
  show False
  proof (cases "A1_check_E1 self \<noteq> []")
    case True
    with v show False by (simp add: A1_validate_def)
  next
    case e1: False
    show False
    proof (cases "A1_create_graphs self")
      case (Inl e)
      with v e1 have "e = IndexError" by (simp add: A1_validate_def)
      with Inl show False by (auto dest: A1_create_graphs_error)
    next
      case (Inr self1)
      note f = A1_create_graphs_fields[OF Inr]
      show False
      proof (cases "A1_check_E2 self1")
        case (Inl e)
        with v e1 Inr have "e = IndexError" by (simp add: A1_validate_def)
        with Inl f assms show False
          by (auto simp: A1_check_E2_def A1_DFS_def split: sum.splits
              dest: first_item_error A1_DFS_on_error)
      next
        case e2: (Inr b)
        show False
        proof (cases "A1_check_E3 self1")
          case (Inl e)
          with v e1 Inr e2 have "e = IndexError \<or> b"
            by (auto simp: A1_validate_def split: if_splits)
          with Inl v e1 Inr e2 show False
            by (auto simp: A1_validate_def A1_check_E3_def dest: check_symbols_error)
        next
          case e3: (Inr fa)
          show False
          proof (cases "A1_check_W2 self1")
            case (Inl e)
            then have "A1_init_st self1 = [] \<or> e = KeyError"
              by (auto simp: A1_check_W2_def A1_DFS_def split: sum.splits
                  dest: first_item_error A1_DFS_on_error)
            with v e1 Inr e2 e3 Inl show False
              by (auto simp: A1_validate_def A1_check_E4_def split: if_splits)
          next
            case (Inr w2)
            with v e1 \<open>A1_create_graphs self = Inr self1\<close> e2 e3 show False
              by (auto simp: A1_validate_def Let_def split: if_splits)
          qed
        qed
      qed
    qed
  qed
qed

theorem A1_validate_no_IndexError_witness:
  "A1_states (A1_init [''A'', ''B''] [''a''] [''A''] [] [''A>a>B'']) \<noteq> [] \<and>
   A1_validate (A1_init [''A'', ''B''] [''a''] [''A''] [] [''A>a>B'']) \<noteq> Inl IndexError"
  using A1_validate_no_IndexError[of "A1_init [''A'', ''B''] [''a''] [''A''] [] [''A>a>B'']"]
  by (simp add: A1_init_def)

subsection \<open>Validating twice\<close>

text \<open>
  Claim C6. The claim says that two calls of \<^verbatim>\<open>validate\<close> in succession on one
  validator object give the same result. \<^verbatim>\<open>validate\<close> calls \<^verbatim>\<open>create_graphs\<close>
  each time, and \<^verbatim>\<open>create_graphs\<close> appends every transition to the graphs that are
  already there. For the one-state automaton with the single loop \<^verbatim>\<open>A>a>A\<close> the first
  call reports no warning and the second call reports W3, nondeterminism.
\<close>

theorem A1_validate_twice_differs:
  "A1_validate_twice (A1_init [''A''] [''a''] [''A''] [''A''] [''A>a>A'']) =
     Inr (([], ''FSA is complete'', []),
          ([], ''FSA is complete'', [''W3: FSA is nondeterministic'']))"
  by code_simp

subsection \<open>Malformed transitions\<close>

text \<open>The structural faults that \<^verbatim>\<open>check_lines\<close> finds are reported as error E5.\<close>

lemma A1_main_check_lines_fails:
  assumes "A1_check_lines (filter (\<lambda>x. length x > 0) (map strip lines)) = Inl e"
  shows "A1_main lines = Inr (''Error:'' @ [CHR 0x0A] @ ''E5: Input file is malformed'' @ [CHR 0x0A])"
proof -
  from assms have "e = AssertionError"
    by (auto simp: A1_check_lines_def split: if_splits)
  with assms show ?thesis
    by (simp add: A1_main_def A1_parse_lines_def)
qed

text \<open>
  Claim C7. The claim says that every structurally malformed input, a transition token
  with a single \<^verbatim>\<open>>\<close> included, gives the malformed-input error and never an uncaught
  fault. \<^verbatim>\<open>parse_lines\<close> does not look inside the transition tokens, so the token
  \<^verbatim>\<open>A>A\<close> reaches \<^verbatim>\<open>create_graphs\<close>, whose unpacking raises ValueError, and
  \<^verbatim>\<open>main\<close> catches AssertionError only: the exception leaves \<^verbatim>\<open>main\<close>.
\<close>

theorem A1_main_short_transition_uncaught:
  "A1_main [''states=[A]'', ''alpha=[a]'', ''init.st=[A]'', ''fin.st=[A]'', ''trans=[A>A]'']
     = Inl ValueError"
  by code_simp

subsection \<open>Construction with an undeclared endpoint\<close>

text \<open>
  Claim C5. The claim says that construction never fails on well-formed token sets and
  that in the strict variant a transition with an undeclared endpoint is left to the
  validation error E4. In the second program \<^verbatim>\<open>__init__\<close> calls
  \<^verbatim>\<open>__create_graphs\<close>, which looks both endpoints up in \<^verbatim>\<open>state2id\<close>: for the
  transition \<^verbatim>\<open>A>a>B\<close> with \<^verbatim>\<open>B\<close> undeclared the constructor raises KeyError, and
  the loop over the transitions in \<^verbatim>\<open>__check_E4\<close> is never reached.
\<close>

theorem A2_init_undeclared_endpoint_raises:
  "A2_init [''A''] [''a''] [''A''] [''A''] [''A>a>B''] = Inl KeyError"
  by code_simp

lemma dict_in_iff: "dict_in k d \<longleftrightarrow> map_of d k \<noteq> None"
  by (simp add: dict_in_def map_of_eq_None_iff)

lemma map_of_dict_setitem: "map_of (dict_setitem k v d) = (map_of d)(k \<mapsto> v)"
proof (cases "dict_in k d")
  case True
  have "map_of (map (\<lambda>(k', v'). if k' = k then (k', v) else (k', v')) d) k'
      = (if k' = k \<and> map_of d k \<noteq> None then Some v else map_of d k')" for k'
    by (induction d) auto
  with True show ?thesis
    by (auto simp: dict_setitem_def dict_in_iff fun_eq_iff)
next
  case False
  then show ?thesis
    by (auto simp: dict_setitem_def dict_in_iff fun_eq_iff map_add_def split: option.splits)
qed

lemma keys_dict_setitem:
  "map fst (dict_setitem k v d) = (if dict_in k d then map fst d else map fst d @ [k])"
proof -
  have "map fst (map (\<lambda>(k', v'). if k' = k then (k', v) else (k', v')) d) = map fst d"
    by (induction d) auto
  then show ?thesis by (simp add: dict_setitem_def)
qed

lemma map_of_dict_ensure:
  "map_of (dict_ensure k d) = (map_of d)(k \<mapsto> lookup0 d k)"
  by (auto simp: dict_ensure_def map_of_dict_setitem lookup0_def dict_in_iff fun_eq_iff)

lemma keys_dict_ensure:
  "map fst (dict_ensure k d) = (if dict_in k d then map fst d else map fst d @ [k])"
  by (simp add: dict_ensure_def keys_dict_setitem)

lemma dict_in_dict_ensure [simp]: "dict_in k' (dict_ensure k d) \<longleftrightarrow> k' = k \<or> dict_in k' d"
  by (auto simp: dict_in_def keys_dict_ensure)

lemma dict_append_dict_ensure:
  "dict_append k x (dict_ensure k d) = Inr (dict_add k x d)"
  by (simp add: dict_append_def dict_getitem_def map_of_dict_ensure dict_add_def)

lemma map_of_dict_add:
  "map_of (dict_add k x d) = (map_of d)(k \<mapsto> lookup0 d k @ [x])"
  by (simp add: dict_add_def map_of_dict_setitem map_of_dict_ensure)

lemma lookup0_dict_add:
  "lookup0 (dict_add k x d) k' = (if k' = k then lookup0 d k @ [x] else lookup0 d k')"
  by (simp add: lookup0_def map_of_dict_add)

lemma keys_dict_add:
  "map fst (dict_add k x d) = (if dict_in k d then map fst d else map fst d @ [k])"
  by (simp add: dict_add_def keys_dict_setitem keys_dict_ensure)

lemma dict_in_dict_add [simp]: "dict_in k' (dict_add k x d) \<longleftrightarrow> k' = k \<or> dict_in k' d"
  by (auto simp: dict_in_def keys_dict_add)

lemma lookup0_dict_ensure [simp]: "lookup0 (dict_ensure k d) k' = lookup0 d k'"
  by (simp add: lookup0_def map_of_dict_ensure)

lemma distinct_dict_add: "distinct (map fst d) \<Longrightarrow> distinct (map fst (dict_add k x d))"
  by (auto simp: keys_dict_add dict_in_def)

lemma distinct_dict_ensure: "distinct (map fst d) \<Longrightarrow> distinct (map fst (dict_ensure k d))"
  by (auto simp: keys_dict_ensure dict_in_def)

lemma unpack3_Inr_iff: "(\<exists>t. unpack3 xs = Inr t) \<longleftrightarrow> length xs = 3"
  by (cases xs rule: unpack3.cases) auto

lemma unpack3_Inl_iff: "(\<exists>e. unpack3 xs = Inl e) \<longleftrightarrow> length xs \<noteq> 3"
  by (cases xs rule: unpack3.cases) auto

lemma triples_Cons:
  "triples (el # els) =
     (case unpack3 (str_split el CHR ''>'') of Inl e \<Rightarrow> [] | Inr t \<Rightarrow> [t]) @ triples els"
  by (simp add: triples_def)

lemma triples_Nil [simp]: "triples [] = []"
  by (simp add: triples_def)

lemma A1_add_transition_ok:
  assumes "unpack3 (str_split el CHR ''>'') = Inr (s1, a, s2)"
  shows "A1_add_transition sts el gs =
     Inr (if s1 \<in> set sts \<and> s2 \<in> set sts then add_all [(s1, a, s2)] gs else gs)"
  using assms
  by (auto simp: A1_add_transition_def dict_append_dict_ensure)

lemma for_each_add_transition:
  "well_formed tr \<Longrightarrow> for_each (A1_add_transition sts) tr gs = Inr (add_all (kept sts tr) gs)"
proof (induction tr arbitrary: gs)
  case Nil
  then show ?case by (simp add: kept_def)
next
  case (Cons el els)
  from Cons.prems have "length (str_split el CHR ''>'') = 3" and wf: "well_formed els"
    by (simp_all add: well_formed_def)
  then obtain s1 a s2 where t: "unpack3 (str_split el CHR ''>'') = Inr (s1, a, s2)"
    using unpack3_Inr_iff[of "str_split el CHR ''>''"] by (metis prod_cases3)
  show ?case
    using Cons.IH[OF wf] t
    by (simp add: A1_add_transition_ok kept_def triples_Cons)
qed

lemma for_each_add_transition_well_formed:
  "for_each (A1_add_transition sts) tr gs = Inr gs' \<Longrightarrow> well_formed tr"
proof (induction tr arbitrary: gs)
  case Nil
  then show ?case by (simp add: well_formed_def)
next
  case (Cons el els)
  from Cons.prems obtain gs1 where
    1: "A1_add_transition sts el gs = Inr gs1" and 2: "for_each (A1_add_transition sts) els gs1 = Inr gs'"
    by (auto split: sum.splits)
  from 1 have "\<exists>t. unpack3 (str_split el CHR ''>'') = Inr t"
    by (auto simp: A1_add_transition_def split: sum.splits)
  then have "length (str_split el CHR ''>'') = 3" using unpack3_Inr_iff by blast
  with Cons.IH[OF 2] show ?case by (simp add: well_formed_def)
qed

lemma lookup0_add_all:
  "lookup0 (fst (add_all ts gs)) u = lookup0 (fst gs) u @ out_edges ts u"
  "lookup0 (snd (add_all ts gs)) u = lookup0 (snd gs) u @ und_edges ts u"
  by (induction ts gs rule: add_all.induct)
    (auto simp: lookup0_dict_add out_edges_def und_edges_def)

lemma dict_in_add_all:
  "dict_in u (fst (add_all ts gs)) \<longleftrightarrow> dict_in u (fst gs) \<or> u \<in> (\<lambda>(s1, a, s2). s1) ` set ts"
  "dict_in u (snd (add_all ts gs)) \<longleftrightarrow>
     dict_in u (snd gs) \<or> u \<in> (\<lambda>(s1, a, s2). s1) ` set ts \<or> u \<in> (\<lambda>(s1, a, s2). s2) ` set ts"
  by (induction ts gs rule: add_all.induct) auto

lemma distinct_add_all:
  "distinct (map fst (fst gs)) \<Longrightarrow> distinct (map fst (fst (add_all ts gs)))"
  "distinct (map fst (snd gs)) \<Longrightarrow> distinct (map fst (snd (add_all ts gs)))"
  by (induction ts gs rule: add_all.induct) (auto simp: distinct_dict_add)

lemma for_each_add_state:
  "for_each A1_add_state sts gs =
     Inr (fold (\<lambda>el gs. (dict_ensure el (fst gs), dict_ensure el (snd gs))) sts gs)"
  by (induction sts arbitrary: gs) (auto simp: A1_add_state_def)

lemma fold_ensure_props:
  fixes gs :: "adj \<times> adj"
  defines "r \<equiv> \<lambda>sts gs. fold (\<lambda>el gs. (dict_ensure el (fst gs), dict_ensure el (snd gs))) sts gs"
  shows "lookup0 (fst (r sts gs)) u = lookup0 (fst gs) u"
    and "lookup0 (snd (r sts gs)) u = lookup0 (snd gs) u"
    and "dict_in u (fst (r sts gs)) \<longleftrightarrow> dict_in u (fst gs) \<or> u \<in> set sts"
    and "dict_in u (snd (r sts gs)) \<longleftrightarrow> dict_in u (snd gs) \<or> u \<in> set sts"
    and "distinct (map fst (fst gs)) \<Longrightarrow> distinct (map fst (fst (r sts gs)))"
    and "distinct (map fst (snd gs)) \<Longrightarrow> distinct (map fst (snd (r sts gs)))"
  unfolding r_def
  by (induction sts arbitrary: gs) (auto simp: distinct_dict_ensure)

lemma A1_create_graphs_eq:
  assumes "well_formed (A1_trans self)"
  shows "A1_create_graphs self =
     Inr (self\<lparr>A1_graph := fst (built (A1_states self) (A1_trans self) (A1_graph self, A1_undirected_graph self)),
               A1_undirected_graph := snd (built (A1_states self) (A1_trans self) (A1_graph self, A1_undirected_graph self))\<rparr>)"
  using assms
  by (simp add: A1_create_graphs_def for_each_add_transition for_each_add_state built_def)

lemma A1_create_graphs_well_formed:
  "A1_create_graphs self = Inr self' \<Longrightarrow> well_formed (A1_trans self)"
  by (auto simp: A1_create_graphs_def split: sum.splits dest: for_each_add_transition_well_formed)

lemma kept_endpoints:
  "(s1, a, s2) \<in> set (kept sts tr) \<Longrightarrow> s1 \<in> set sts \<and> s2 \<in> set sts"
  by (auto simp: kept_def)

lemma lookup0_built:
  "lookup0 (fst (built sts tr gs)) u = lookup0 (fst gs) u @ out_edges (kept sts tr) u"
  "lookup0 (snd (built sts tr gs)) u = lookup0 (snd gs) u @ und_edges (kept sts tr) u"
  by (simp_all add: built_def fold_ensure_props lookup0_add_all)

lemma dict_in_built:
  "dict_in u (fst (built sts tr gs)) \<longleftrightarrow> dict_in u (fst gs) \<or> u \<in> set sts"
  "dict_in u (snd (built sts tr gs)) \<longleftrightarrow> dict_in u (snd gs) \<or> u \<in> set sts"
  by (auto simp: built_def fold_ensure_props dict_in_add_all dest: kept_endpoints)

lemma distinct_built:
  "distinct (map fst (fst gs)) \<Longrightarrow> distinct (map fst (fst (built sts tr gs)))"
  "distinct (map fst (snd gs)) \<Longrightarrow> distinct (map fst (snd (built sts tr gs)))"
  by (simp_all add: built_def fold_ensure_props distinct_add_all)

lemma lookup0_Nil [simp]: "lookup0 [] u = []"
  by (simp add: lookup0_def)

lemma dict_in_Nil [simp]: "\<not> dict_in u []"
  by (simp add: dict_in_def)

text \<open>Entries of a dictionary with distinct keys\<close>

lemma dict_entry_iff:
  "distinct (map fst d) \<Longrightarrow> (u, es) \<in> set d \<longleftrightarrow> dict_in u d \<and> lookup0 d u = es"
proof -
  assume d: "distinct (map fst d)"
  have "(u, es) \<in> set d \<longleftrightarrow> map_of d u = Some es"
    using map_of_eq_Some_iff[OF d] by simp
  then show ?thesis
    by (auto simp: dict_in_iff lookup0_def split: option.splits)
qed

lemma dict_getitem_iff: "dict_getitem u d = Inr es \<longleftrightarrow> dict_in u d \<and> lookup0 d u = es"
  by (auto simp: dict_getitem_def dict_in_iff lookup0_def split: option.splits)

lemma dict_getitem_KeyError_iff: "dict_getitem u d = Inl e \<longleftrightarrow> \<not> dict_in u d \<and> e = KeyError"
  by (auto simp: dict_getitem_def dict_in_iff split: option.splits)

lemma A1_DFS_sound:
  "A1_DFS_on g u V = Inr V' \<Longrightarrow> V' \<subseteq> V \<union> (adj_rel g)\<^sup>* `` {u}"
  "A1_DFS_for g vs V = Inr V' \<Longrightarrow> V' \<subseteq> V \<union> (adj_rel g)\<^sup>* `` (fst ` set vs)"
proof (induction g u V and g vs V arbitrary: V' and V' rule: A1_DFS_on_A1_DFS_for.induct)
  case (1 g u visited)
  from "1.prems" obtain vs where vs: "dict_getitem u g = Inr vs"
    and r: "A1_DFS_for g vs (insert u visited) = Inr V'"
    by (auto simp: A1_DFS_on.simps split: sum.splits)
  from vs have "lookup0 g u = vs" by (simp add: dict_getitem_iff)
  then have "fst ` set vs \<subseteq> adj_rel g `` {u}" by (auto simp: adj_rel_def)
  then have "(adj_rel g)\<^sup>* `` (fst ` set vs) \<subseteq> (adj_rel g)\<^sup>* `` {u}"
    by (auto intro: converse_rtrancl_into_rtrancl)
  with "1.IH"[OF vs r] show ?case by auto
next
  case (2 g visited)
  then show ?case by simp
next
  case (3 g v vs visited)
  show ?case
  proof (cases "fst v \<notin> visited")
    case True
    with "3.prems" obtain W where W: "A1_DFS_on g (fst v) visited = Inr W"
      and r: "A1_DFS_for g vs W = Inr V'"
      by (auto split: sum.splits)
    from "3.IH"(1)[OF True W] "3.IH"(2)[OF True W r] show ?thesis by auto
  next
    case False
    with "3.prems" have "A1_DFS_for g vs visited = Inr V'" by simp
    with "3.IH"(3) False show ?thesis by auto
  qed
qed

lemma A1_DFS_returns:
  "closed_graph g \<Longrightarrow> dict_in u g \<Longrightarrow> \<exists>V'. A1_DFS_on g u V = Inr V'"
  "closed_graph g \<Longrightarrow> fst ` set vs \<subseteq> {v. dict_in v g} \<Longrightarrow> \<exists>V'. A1_DFS_for g vs V = Inr V'"
proof (induction g u V and g vs V rule: A1_DFS_on_A1_DFS_for.induct)
  case (1 g u visited)
  then obtain vs where vs: "dict_getitem u g = Inr vs" "lookup0 g u = vs"
    by (auto simp: dict_getitem_iff)
  then have "fst ` set vs \<subseteq> {v. dict_in v g}"
    using "1.prems"(1) by (auto simp: adj_rel_def closed_graph_def)
  from "1.IH"[OF vs(1) "1.prems"(1) this] vs show ?case
    by (simp add: A1_DFS_on.simps)
next
  case (2 g visited)
  then show ?case by simp
next
  case (3 g v vs visited)
  from "3.prems" have v: "dict_in (fst v) g" and vs: "fst ` set vs \<subseteq> {v. dict_in v g}"
    by auto
  show ?case
  proof (cases "fst v \<notin> visited")
    case True
    from "3.IH"(1)[OF True "3.prems"(1) v] obtain W where W: "A1_DFS_on g (fst v) visited = Inr W"
      by blast
    from "3.IH"(2)[OF True W "3.prems"(1) vs] True W show ?thesis by simp
  next
    case False
    with "3.IH"(3)[OF False "3.prems"(1) vs] show ?thesis by simp
  qed
qed

lemma und_rel_sym: "sym (und_rel sts tr)"
  by (auto simp: und_rel_def sym_def)

lemma und_rel_states: "(x, y) \<in> und_rel sts tr \<Longrightarrow> x \<in> set sts \<and> y \<in> set sts"
  by (auto simp: und_rel_def dest: kept_endpoints)

lemma und_rel_rtrancl_states:
  "(x, y) \<in> (und_rel sts tr)\<^sup>* \<Longrightarrow> x \<in> set sts \<Longrightarrow> y \<in> set sts"
  by (induction rule: rtrancl_induct) (auto dest: und_rel_states)

lemma set_und_edges:
  "fst ` set (und_edges ts u) = {v. \<exists>a. (u, a, v) \<in> set ts \<or> (v, a, u) \<in> set ts}"
proof (induction ts)
  case Nil
  then show ?case by (simp add: und_edges_def)
next
  case (Cons t ts)
  obtain s1 a s2 where t: "t = (s1, a, s2)" by (cases t)
  have "und_edges (t # ts) u =
      (if s1 = u then [(s2, a)] else []) @ (if s2 = u then [(s1, a)] else []) @ und_edges ts u"
    by (simp add: und_edges_def t)
  then have "fst ` set (und_edges (t # ts) u) =
      (if s1 = u then {s2} else {}) \<union> (if s2 = u then {s1} else {}) \<union> fst ` set (und_edges ts u)"
    by auto
  also have "\<dots> = {v. \<exists>a. (u, a, v) \<in> set (t # ts) \<or> (v, a, u) \<in> set (t # ts)}"
    unfolding Cons.IH t by auto
  finally show ?case .
qed

lemma set_out_edges:
  "set (out_edges ts u) = {(v, a). (u, a, v) \<in> set ts}"
  by (auto simp: out_edges_def split: if_splits)

lemma disjoint_states_unreached:
  assumes "disjoint_states sts tr" and "s0 \<in> set sts"
  shows "\<exists>z\<in>set sts. (s0, z) \<notin> (und_rel sts tr)\<^sup>*"
proof (rule ccontr)
  assume "\<not> ?thesis"
  then have all: "\<And>z. z \<in> set sts \<Longrightarrow> (s0, z) \<in> (und_rel sts tr)\<^sup>*" by blast
  from assms(1) obtain x y where xy: "x \<in> set sts" "y \<in> set sts" "(x, y) \<notin> (und_rel sts tr)\<^sup>*"
    by (auto simp: disjoint_states_def)
  have "sym ((und_rel sts tr)\<^sup>*)" by (rule sym_rtrancl[OF und_rel_sym])
  with all[OF xy(1)] have "(x, s0) \<in> (und_rel sts tr)\<^sup>*" by (auto dest: symD)
  with all[OF xy(2)] have "(x, y) \<in> (und_rel sts tr)\<^sup>*" by (meson rtrancl_trans)
  with xy(3) show False by contradiction
qed

text \<open>The graphs that a fresh validator object holds after create_graphs.\<close>

lemma adj_rel_built_undirected:
  "adj_rel (snd (built sts tr ([], []))) = und_rel sts tr"
  by (auto simp: adj_rel_def lookup0_built set_und_edges und_rel_def)

lemma closed_built_undirected: "closed_graph (snd (built sts tr ([], [])))"
  by (auto simp: closed_graph_def adj_rel_built_undirected dict_in_built dest: und_rel_states)

lemma A1_check_E1_none:
  "set (A1_init_st self) \<subseteq> set (A1_states self) \<Longrightarrow> set (A1_fin_st self) \<subseteq> set (A1_states self)
     \<Longrightarrow> A1_check_E1 self = []"
proof -
  assume a: "set (A1_init_st self) \<subseteq> set (A1_states self)"
    and b: "set (A1_fin_st self) \<subseteq> set (A1_states self)"
  have "find (\<lambda>el. el \<notin> set (A1_states self)) (A1_init_st self) = None"
    using a by (auto simp: find_None_iff)
  moreover have "find (\<lambda>el. el \<notin> set (A1_states self)) (A1_fin_st self) = None"
    using b by (auto simp: find_None_iff)
  ultimately show ?thesis by (simp add: A1_check_E1_def)
qed

lemma A1_check_E2_disjoint:
  assumes sts: "sts \<noteq> []" and dj: "disjoint_states sts tr"
    and s: "A1_states self = sts" and u: "A1_undirected_graph self = snd (built sts tr ([], []))"
  shows "A1_check_E2 self = Inr True"
proof -
  from sts obtain s0 rest where s0: "sts = s0 # rest" by (cases sts) auto
  then have in0: "s0 \<in> set sts" by simp
  let ?ug = "snd (built sts tr ([], []))"
  have "dict_in s0 ?ug" using in0 by (simp add: dict_in_built)
  from A1_DFS_returns(1)[OF closed_built_undirected this]
  obtain V where V: "A1_DFS_on ?ug s0 {} = Inr V" by blast
  from A1_DFS_sound(1)[OF V] have sub: "V \<subseteq> (und_rel sts tr)\<^sup>* `` {s0}"
    by (simp add: adj_rel_built_undirected)
  then have sub2: "V \<subseteq> set sts" using in0 by (auto dest: und_rel_rtrancl_states)
  from disjoint_states_unreached[OF dj in0] obtain z where "z \<in> set sts" "z \<notin> V"
    using sub by auto
  with sub2 have "V \<subset> set sts" by auto
  then have "card V < card (set sts)" by (intro psubset_card_mono) auto
  also have "\<dots> \<le> length sts" by (rule card_length)
  finally have "card V \<noteq> length sts" by simp
  with V s0 s u show ?thesis
    by (simp add: A1_check_E2_def first_item_def A1_DFS_def)
qed

lemma A1_validate_disjoint:
  assumes "sts \<noteq> []" "set ini \<subseteq> set sts" "set fin \<subseteq> set sts" "well_formed tr"
    "disjoint_states sts tr"
  shows "A1_validate_result (A1_init sts al ini fin tr) = Inr (''E2: Some states are disjoint'', [], [])"
proof -
  let ?v = "A1_init sts al ini fin tr"
  have e1: "A1_check_E1 ?v = []"
    using assms(2,3) by (intro A1_check_E1_none) (simp_all add: A1_init_def)
  have wf: "well_formed (A1_trans ?v)" using assms(4) by (simp add: A1_init_def)
  note cg = A1_create_graphs_eq[OF wf]
  let ?v1 = "?v\<lparr>A1_graph := fst (built sts tr ([], [])), A1_undirected_graph := snd (built sts tr ([], []))\<rparr>"
  have cg': "A1_create_graphs ?v = Inr ?v1"
    using cg by (simp add: A1_init_def)
  have "A1_check_E2 ?v1 = Inr True"
    by (rule A1_check_E2_disjoint[OF assms(1) assms(5)]) (simp_all add: A1_init_def)
  with e1 cg' show ?thesis
    by (simp add: A1_validate_result_def A1_validate_def)
qed

lemma rtrancl_subset_Id: "r \<subseteq> Id \<Longrightarrow> r\<^sup>* = Id"
proof -
  assume "r \<subseteq> Id"
  then have "r\<^sup>* \<subseteq> Id\<^sup>*" by (rule rtrancl_mono)
  then show ?thesis by auto
qed

subsection \<open>The undefined-state error\<close>

lemma find_append_if:
  "find P (xs @ ys) = (case find P xs of None \<Rightarrow> find P ys | Some x \<Rightarrow> Some x)"
  by (induction xs) auto

lemma A1_check_E1_first:
  "first_undeclared (A1_states self) (A1_init_st self @ A1_fin_st self) = Some x
     \<Longrightarrow> A1_check_E1 self = x"
  by (auto simp: first_undeclared_def A1_check_E1_def find_append_if split: option.splits)

lemma A2_check_E4_first:
  "first_undeclared (A2_states self) (A2_initial self @ A2_accepting self) = Some x
     \<Longrightarrow> A2_check_E4 self = Inr x"
  by (auto simp: first_undeclared_def A2_check_E4_def find_append_if split: option.splits)

text \<open>
  Claim C3, as stated, fails on the second program. The claim says that an undeclared
  accepting state gives the undefined-state error before any other check runs. In
  \<^verbatim>\<open>FSA.validate\<close> the checks E2 (no initial state) and E3 (no accepting state)
  come before E4: with no initial state and the undeclared accepting state \<^verbatim>\<open>C\<close>
  the answer is E2.
\<close>

theorem undefined_state_counterexample:
  "first_undeclared [''A''] ([] @ [''C'']) = Some ''C'' \<and>
   (case A2_init [''A''] [''a''] [] [''C''] [] of
      Inl e \<Rightarrow> False
    | Inr fsa \<Rightarrow> A2_validate fsa = Inr ''E2: Initial state is not defined'')"
  by code_simp

text \<open>
  Claim C3, amended. In the validator, when the first identifier of the initial states
  followed by the accepting states that is not a declared state is a non-empty string,
  \<^verbatim>\<open>validate\<close> returns E1 naming it, with an empty completeness string and no
  warnings, and leaves the object as it was: no graph was built and no other check ran.
  In the translator the same holds for E4 once the lists of initial and accepting states
  are both non-empty, since E2 and E3 are checked first.
\<close>

theorem undefined_state_reported:
  "(first_undeclared (A1_states v) (A1_init_st v @ A1_fin_st v) = Some x \<and> x \<noteq> [] \<longrightarrow>
      A1_validate v =
        Inr ((''E1: A state '' @ [CHR 0x27] @ x @ [CHR 0x27] @ '' is not in the set of states'',
              [], []), v))
   \<and> (A2_initial k \<noteq> [] \<and> A2_accepting k \<noteq> [] \<and>
        first_undeclared (A2_states k) (A2_initial k @ A2_accepting k) = Some y \<and> y \<noteq> [] \<longrightarrow>
      A2_validate k =
        Inr (''E4: A state '' @ [CHR 0x27] @ y @ [CHR 0x27] @ '' is not in the set of states''))"
  by (auto simp: A1_validate_def A2_validate_def A2_check_E2_def A2_check_E3_def
      dest: A1_check_E1_first A2_check_E4_first)

theorem undefined_state_reported_witness:
  "(first_undeclared [''A'', ''B''] ([''A'', ''Q''] @ [''Z'']) = Some ''Q'' \<and> ''Q'' \<noteq> [] \<and>
    A1_validate (A1_init [''A'', ''B''] [''a''] [''A'', ''Q''] [''Z''] [''A>x>B'', ''junk'']) =
      Inr ((''E1: A state 'Q' is not in the set of states'', [], []),
           A1_init [''A'', ''B''] [''a''] [''A'', ''Q''] [''Z''] [''A>x>B'', ''junk'']))
   \<and> (case A2_init [''A'', ''B''] [''a''] [''A''] [''B'', ''Z''] [''A>x>B''] of
        Inl e \<Rightarrow> False
      | Inr k \<Rightarrow>
          A2_initial k \<noteq> [] \<and> A2_accepting k \<noteq> [] \<and>
          first_undeclared (A2_states k) (A2_initial k @ A2_accepting k) = Some ''Z'' \<and>
          A2_validate k = Inr ''E4: A state 'Z' is not in the set of states'')"
proof -
  let ?v = "A1_init [''A'', ''B''] [''a''] [''A'', ''Q''] [''Z''] [''A>x>B'', ''junk'']"
  have "case A2_init [''A'', ''B''] [''a''] [''A''] [''B'', ''Z''] [''A>x>B''] of
          Inl e \<Rightarrow> False
        | Inr k \<Rightarrow> A2_initial k = [''A''] \<and> A2_accepting k = [''B'', ''Z''] \<and>
                   A2_states k = [''A'', ''B'']"
    by code_simp
  then obtain k where k: "A2_init [''A'', ''B''] [''a''] [''A''] [''B'', ''Z''] [''A>x>B''] = Inr k"
    "A2_initial k = [''A'']" "A2_accepting k = [''B'', ''Z'']" "A2_states k = [''A'', ''B'']"
    by (auto split: sum.splits)
  show ?thesis
    using undefined_state_reported[of ?v "''Q''" k "''Z''"] k
    by (simp add: A1_init_def first_undeclared_def)
qed

subsection \<open>The graphs of the translator and the disjoint-states error\<close>

text \<open>The two dictionaries of the automaton object\<close>

lemma map_of_state2id:
  "map_of (fold (\<lambda>i d. dict_setitem (sts ! i) i d) [0..<m] []) s = Some i
     \<Longrightarrow> i < m \<and> sts ! i = s"
proof (induction m arbitrary: i)
  case 0
  then show ?case by simp
next
  case (Suc m)
  let ?d = "fold (\<lambda>i d. dict_setitem (sts ! i) i d) [0..<m] []"
  from Suc.prems have eq: "((map_of ?d)(sts ! m \<mapsto> m)) s = Some i"
    by (simp add: map_of_dict_setitem)
  show ?case
  proof (cases "s = sts ! m")
    case True
    with eq show ?thesis by simp
  next
    case False
    with eq have "map_of ?d s = Some i" by simp
    from Suc.IH[OF this] show ?thesis by simp
  qed
qed

lemma dict_in_state2id:
  "m \<le> length sts \<Longrightarrow>
   dict_in s (fold (\<lambda>i d. dict_setitem (sts ! i) i d) [0..<m] []) \<longleftrightarrow> s \<in> set (take m sts)"
proof (induction m)
  case 0
  then show ?case by simp
next
  case (Suc m)
  then show ?case
    by (auto simp: dict_in_iff map_of_dict_setitem take_Suc_conv_app_nth)
qed

lemma map_of_id2state:
  "map_of (fold (\<lambda>i d. dict_setitem i (sts ! i) d) [0..<m] []) i =
     (if i < m then Some (sts ! i) else None)"
  by (induction m) (auto simp: map_of_dict_setitem less_Suc_eq)

lemma square_replicate: "square n (replicate n (replicate n x))"
  by (simp add: square_def)

lemma square_update: "square n m \<Longrightarrow> i < n \<Longrightarrow> j < n \<Longrightarrow> square n (m[i := (m ! i)[j := x]])"
  by (auto simp: square_def dest!: set_update_subset_insert[THEN subsetD])

lemma matrix_get_square: "square n m \<Longrightarrow> i < n \<Longrightarrow> j < n \<Longrightarrow> matrix_get m i j = Inr (m ! i ! j)"
  by (simp add: matrix_get_def list_getitem_def square_def)

lemma nth_nth_update:
  "square n m \<Longrightarrow> i < n \<Longrightarrow> j < n \<Longrightarrow> i' < n \<Longrightarrow> j' < n \<Longrightarrow>
   m[i := (m ! i)[j := x]] ! i' ! j' = (if i' = i \<and> j' = j then x else m ! i' ! j')"
  by (auto simp: square_def nth_list_update)

lemma cell_syms_simps [simp]:
  "cell_syms idx [] i j = []"
  "cell_syms idx ((s1, a, s2) # ts) i j =
     (if idx s1 = Some i \<and> idx s2 = Some j then [a] else []) @ cell_syms idx ts i j"
  by (simp_all add: cell_syms_def)

lemma und_cell_syms_simps [simp]:
  "und_cell_syms idx [] i j = []"
  "und_cell_syms idx ((s1, a, s2) # ts) i j =
     (if idx s1 = Some i \<and> idx s2 = Some j then [a] else []) @
     (if idx s2 = Some i \<and> idx s1 = Some j then [a] else []) @ und_cell_syms idx ts i j"
  by (simp_all add: und_cell_syms_def)

lemma A2_append_edge_Inr:
  assumes "A2_append_edge st s1 s2 a g = Inr g'"
  shows "\<exists>i j. map_of st s1 = Some i \<and> map_of st s2 = Some j \<and> i < length g \<and> j < length (g ! i) \<and>
           g' = g[i := (g ! i)[j := g ! i ! j @ [a]]]"
  using assms
  by (auto simp: A2_append_edge_def dict_getitem_def list_getitem_def
      split: option.splits sum.splits if_splits)

lemma A2_add_transition_Inr:
  assumes r: "A2_add_transition st el (g, ug) = Inr (g', ug')"
  shows "\<exists>s1 a s2 i j. unpack3 (str_split el CHR ''>'') = Inr (s1, a, s2) \<and>
           map_of st s1 = Some i \<and> map_of st s2 = Some j \<and>
           g' = g[i := (g ! i)[j := g ! i ! j @ [a]]] \<and>
           ug' = (ug[i := (ug ! i)[j := ug ! i ! j @ [a]]])
                   [j := ((ug[i := (ug ! i)[j := ug ! i ! j @ [a]]]) ! j)
                            [i := (ug[i := (ug ! i)[j := ug ! i ! j @ [a]]]) ! j ! i @ [a]]]"
proof -
  from r obtain s1 a s2 g1 ug1 where
    t: "unpack3 (str_split el CHR ''>'') = Inr (s1, a, s2)" and
    1: "A2_append_edge st s1 s2 a g = Inr g1" and
    2: "A2_append_edge st s1 s2 a ug = Inr ug1" and
    3: "A2_append_edge st s2 s1 a ug1 = Inr ug'" and g': "g' = g1"
    by (auto simp: A2_add_transition_def split: sum.splits prod.splits)
  from A2_append_edge_Inr[OF 1] obtain i j where
    ij: "map_of st s1 = Some i" "map_of st s2 = Some j" and
    g1: "g1 = g[i := (g ! i)[j := g ! i ! j @ [a]]]" by blast
  from A2_append_edge_Inr[OF 2] ij have
    ug1: "ug1 = ug[i := (ug ! i)[j := ug ! i ! j @ [a]]]" by auto
  from A2_append_edge_Inr[OF 3] ij have
    ug': "ug' = ug1[j := (ug1 ! j)[i := ug1 ! j ! i @ [a]]]" by auto
  from t ij g1 ug1 ug' g' show ?thesis by blast
qed

lemma nth_nth_update_append:
  "square n m \<Longrightarrow> i < n \<Longrightarrow> j < n \<Longrightarrow> i' < n \<Longrightarrow> j' < n \<Longrightarrow>
   m[i := (m ! i)[j := m ! i ! j @ xs]] ! i' ! j' = m ! i' ! j' @ (if i' = i \<and> j' = j then xs else [])"
  by (auto simp: square_def nth_list_update)

lemma if_swap_eq:
  "(if Some i = Some i' \<and> Some j = Some j' then x else y) = (if i' = i \<and> j' = j then x else y)"
  by auto

lemma cell_syms_one:
  "cell_syms idx [(s1, a, s2)] i j = (if idx s1 = Some i \<and> idx s2 = Some j then [a] else [])"
  by (simp add: cell_syms_def)

lemma und_cell_syms_one:
  "und_cell_syms idx [(s1, a, s2)] i j =
     (if idx s1 = Some i \<and> idx s2 = Some j then [a] else []) @
     (if idx s2 = Some i \<and> idx s1 = Some j then [a] else [])"
  by (simp add: und_cell_syms_def)

lemma A2_add_transition_cells:
  assumes r: "A2_add_transition st el (g, ug) = Inr (g', ug')"
    and sq: "square n g" "square n ug"
    and bound: "\<forall>s i. map_of st s = Some i \<longrightarrow> i < n"
  shows "\<exists>s1 a s2. unpack3 (str_split el CHR ''>'') = Inr (s1, a, s2) \<and>
           dict_in s1 st \<and> dict_in s2 st \<and> square n g' \<and> square n ug' \<and>
           (\<forall>i<n. \<forall>j<n. g' ! i ! j = g ! i ! j @ cell_syms (map_of st) [(s1, a, s2)] i j \<and>
                         ug' ! i ! j = ug ! i ! j @ und_cell_syms (map_of st) [(s1, a, s2)] i j)"
proof -
  from A2_add_transition_Inr[OF r] obtain s1 a s2 i j where
    t: "unpack3 (str_split el CHR ''>'') = Inr (s1, a, s2)" and
    ij: "map_of st s1 = Some i" "map_of st s2 = Some j" and
    g': "g' = g[i := (g ! i)[j := g ! i ! j @ [a]]]" and
    ug': "ug' = (ug[i := (ug ! i)[j := ug ! i ! j @ [a]]])
                   [j := ((ug[i := (ug ! i)[j := ug ! i ! j @ [a]]]) ! j)
                            [i := (ug[i := (ug ! i)[j := ug ! i ! j @ [a]]]) ! j ! i @ [a]]]"
    by blast
  from ij bound have lt: "i < n" "j < n" by auto
  let ?ug1 = "ug[i := (ug ! i)[j := ug ! i ! j @ [a]]]"
  have sq1: "square n ?ug1" by (rule square_update[OF sq(2) lt])
  have sqg: "square n g'" unfolding g' by (rule square_update[OF sq(1) lt])
  have squ: "square n ug'" unfolding ug' by (rule square_update[OF sq1 lt(2) lt(1)])
  have cells: "g' ! i' ! j' = g ! i' ! j' @ cell_syms (map_of st) [(s1, a, s2)] i' j' \<and>
        ug' ! i' ! j' = ug ! i' ! j' @ und_cell_syms (map_of st) [(s1, a, s2)] i' j'"
    if "i' < n" "j' < n" for i' j'
  proof -
    have 1: "g' ! i' ! j' = g ! i' ! j' @ (if i' = i \<and> j' = j then [a] else [])"
      unfolding g' by (rule nth_nth_update_append[OF sq(1) lt that])
    have 2: "ug' ! i' ! j' = ?ug1 ! i' ! j' @ (if i' = j \<and> j' = i then [a] else [])"
      unfolding ug' by (rule nth_nth_update_append[OF sq1 lt(2) lt(1) that])
    have 3: "?ug1 ! i' ! j' = ug ! i' ! j' @ (if i' = i \<and> j' = j then [a] else [])"
      by (rule nth_nth_update_append[OF sq(2) lt that])
    have c: "cell_syms (map_of st) [(s1, a, s2)] i' j' = (if i' = i \<and> j' = j then [a] else [])"
      unfolding cell_syms_one ij by (rule if_swap_eq)
    have u: "und_cell_syms (map_of st) [(s1, a, s2)] i' j' =
        (if i' = i \<and> j' = j then [a] else []) @ (if i' = j \<and> j' = i then [a] else [])"
      unfolding und_cell_syms_one ij by (simp only: if_swap_eq)
    show ?thesis by (simp only: 1 2 3 c u append_assoc)
  qed
  from ij have "dict_in s1 st" "dict_in s2 st" by (simp_all add: dict_in_iff)
  with t sqg squ cells show ?thesis by blast
qed

lemma for_each_A2_add_transition:
  assumes "for_each (A2_add_transition st) tr (g, ug) = Inr (g', ug')"
    and "square n g" "square n ug"
    and bound: "\<forall>s i. map_of st s = Some i \<longrightarrow> i < n"
  shows "well_formed tr \<and>
         (\<forall>(s1, a, s2)\<in>set (triples tr). dict_in s1 st \<and> dict_in s2 st) \<and>
         square n g' \<and> square n ug' \<and>
         (\<forall>i<n. \<forall>j<n. g' ! i ! j = g ! i ! j @ cell_syms (map_of st) (triples tr) i j \<and>
                       ug' ! i ! j = ug ! i ! j @ und_cell_syms (map_of st) (triples tr) i j)"
  using assms(1-3)
proof (induction tr arbitrary: g ug)
  case Nil
  then show ?case by (simp add: well_formed_def)
next
  case (Cons el els)
  from Cons.prems(1) obtain g1 ug1 where
    1: "A2_add_transition st el (g, ug) = Inr (g1, ug1)" and
    2: "for_each (A2_add_transition st) els (g1, ug1) = Inr (g', ug')"
    by (auto split: sum.splits)
  from A2_add_transition_cells[OF 1 Cons.prems(2,3) bound] obtain s1 a s2 where
    t: "unpack3 (str_split el CHR ''>'') = Inr (s1, a, s2)" and
    d: "dict_in s1 st" "dict_in s2 st" and sq1: "square n g1" "square n ug1" and
    c1: "\<And>i j. i < n \<Longrightarrow> j < n \<Longrightarrow> g1 ! i ! j = g ! i ! j @ cell_syms (map_of st) [(s1, a, s2)] i j"
        "\<And>i j. i < n \<Longrightarrow> j < n \<Longrightarrow> ug1 ! i ! j = ug ! i ! j @ und_cell_syms (map_of st) [(s1, a, s2)] i j"
    by blast
  note IH = Cons.IH[OF 2 sq1]
  from t have len: "length (str_split el CHR ''>'') = 3" using unpack3_Inr_iff by blast
  have tr: "triples (el # els) = (s1, a, s2) # triples els"
    using t by (simp add: triples_Cons)
  show ?case
    using IH len d c1 unfolding tr
    by (simp add: well_formed_def)
qed

lemma A2_create_graphs_fields:
  "A2_create_graphs self = Inr k \<Longrightarrow>
     A2_states k = A2_states self \<and> A2_alpha k = A2_alpha self \<and>
     A2_initial k = A2_initial self \<and> A2_accepting k = A2_accepting self \<and>
     A2_trans k = A2_trans self \<and> A2_n k = A2_n self \<and>
     A2_state2id k = A2_state2id self \<and> A2_id2state k = A2_id2state self \<and>
     for_each (A2_add_transition (A2_state2id self)) (A2_trans self)
       (A2_graph self, A2_undirected_graph self) = Inr (A2_graph k, A2_undirected_graph k)"
  by (auto simp: A2_create_graphs_def split: sum.splits)

lemma A2_init_fields:
  assumes "A2_init sts al ini acc tr = Inr k"
  shows "A2_states k = sts" "A2_alpha k = al" "A2_initial k = ini" "A2_accepting k = acc"
    "A2_trans k = tr" "A2_n k = length sts"
    "A2_state2id k = fold (\<lambda>i d. dict_setitem (sts ! i) i d) [0..<length sts] []"
    "A2_id2state k = fold (\<lambda>i d. dict_setitem i (sts ! i) d) [0..<length sts] []"
  using A2_create_graphs_fields[OF assms[unfolded A2_init_def Let_def]]
  by simp_all

lemma A2_init_wf:
  assumes "A2_init sts al ini acc tr = Inr k"
  shows "A2_wf k"
proof -
  note f = A2_init_fields[OF assms]
  have 1: "\<forall>s i. map_of (A2_state2id k) s = Some i \<longrightarrow> i < A2_n k \<and> A2_states k ! i = s"
    unfolding f using map_of_state2id[of sts "length sts"] by blast
  have 2: "\<forall>s. s \<in> set (A2_states k) \<longrightarrow> dict_in s (A2_state2id k)"
    unfolding f using dict_in_state2id[of "length sts" sts] by simp
  have 3: "\<forall>i. map_of (A2_id2state k) i = (if i < A2_n k then Some (A2_states k ! i) else None)"
    unfolding f by (simp add: map_of_id2state)
  from f(6) f(1) 1 2 3 show ?thesis unfolding A2_wf_def by blast
qed

lemma A2_init_graphs:
  assumes "A2_init sts al ini acc tr = Inr k"
  shows "well_formed tr"
    and "\<forall>(s1, a, s2)\<in>set (triples tr). s1 \<in> set sts \<and> s2 \<in> set sts"
    and "square (length sts) (A2_graph k)"
    and "square (length sts) (A2_undirected_graph k)"
    and "\<forall>i<length sts. \<forall>j<length sts.
           A2_graph k ! i ! j = cell_syms (map_of (A2_state2id k)) (triples tr) i j \<and>
           A2_undirected_graph k ! i ! j = und_cell_syms (map_of (A2_state2id k)) (triples tr) i j"
proof -
  let ?st = "fold (\<lambda>i d. dict_setitem (sts ! i) i d) [0..<length sts] []"
  let ?n = "length sts"
  have fe: "for_each (A2_add_transition ?st) tr (replicate ?n (replicate ?n []), replicate ?n (replicate ?n []))
      = Inr (A2_graph k, A2_undirected_graph k)"
    using A2_create_graphs_fields[OF assms[unfolded A2_init_def Let_def]] by simp
  have bound: "\<forall>s i. map_of ?st s = Some i \<longrightarrow> i < ?n"
    using map_of_state2id[of sts ?n] by blast
  note r = for_each_A2_add_transition[OF fe square_replicate square_replicate bound]
  from r show "well_formed tr" by blast
  from r have "\<forall>(s1, a, s2)\<in>set (triples tr). dict_in s1 ?st \<and> dict_in s2 ?st" by blast
  then show "\<forall>(s1, a, s2)\<in>set (triples tr). s1 \<in> set sts \<and> s2 \<in> set sts"
    using dict_in_state2id[of ?n sts] by auto
  from r show "square (length sts) (A2_graph k)" "square (length sts) (A2_undirected_graph k)"
    by blast+
  from r show "\<forall>i<length sts. \<forall>j<length sts.
           A2_graph k ! i ! j = cell_syms (map_of (A2_state2id k)) (triples tr) i j \<and>
           A2_undirected_graph k ! i ! j = und_cell_syms (map_of (A2_state2id k)) (triples tr) i j"
    unfolding A2_init_fields(7)[OF assms] by simp
qed

lemma A2_wf_id2state:
  "A2_wf self \<Longrightarrow> v < A2_n self \<Longrightarrow> dict_getitem v (A2_id2state self) = Inr (A2_states self ! v)"
  by (simp add: A2_wf_def dict_getitem_def)

lemma A2_wf_state2id:
  "A2_wf self \<Longrightarrow> u \<in> set (A2_states self) \<Longrightarrow>
     \<exists>iu. dict_getitem u (A2_state2id self) = Inr iu \<and> map_of (A2_state2id self) u = Some iu \<and>
          iu < A2_n self \<and> A2_states self ! iu = u"
  by (auto simp: A2_wf_def dict_getitem_def dict_in_iff split: option.splits)

lemma A2_DFS_for_unfold:
  assumes wf: "A2_wf self" and sq: "square (A2_n self) g" and u: "u \<in> set (A2_states self)"
    and v: "v < A2_n self" and iu: "map_of (A2_state2id self) u = Some iu"
  shows "A2_DFS_for self g u v V =
     (if A2_states self ! v \<notin> V \<and> g ! iu ! v \<noteq> []
      then (case A2_DFS self g (A2_states self ! v) V of
              Inl e \<Rightarrow> Inl e
            | Inr V' \<Rightarrow> A2_DFS_for self g u (Suc v) V')
      else A2_DFS_for self g u (Suc v) V)"
proof -
  from A2_wf_state2id[OF wf u] iu have g: "dict_getitem u (A2_state2id self) = Inr iu" "iu < A2_n self"
    by auto
  have m: "matrix_get g iu v = Inr (g ! iu ! v)"
    by (rule matrix_get_square[OF sq g(2) v])
  show ?thesis
    by (subst A2_DFS_for.simps) (simp add: v A2_wf_id2state[OF wf v] g m)
qed

lemma A2_DFS_sound:
  "A2_wf self \<Longrightarrow> square (A2_n self) g \<Longrightarrow> u \<in> set (A2_states self) \<Longrightarrow>
     \<exists>V'. A2_DFS self g u V = Inr V' \<and> V' \<subseteq> V \<union> (A2_adj self g)\<^sup>* `` {u}"
  "A2_wf self \<Longrightarrow> square (A2_n self) g \<Longrightarrow> u \<in> set (A2_states self) \<Longrightarrow>
     \<exists>V'. A2_DFS_for self g u v V = Inr V' \<and> V' \<subseteq> V \<union> (A2_adj self g)\<^sup>* `` {u}"
proof (induction self g u V and self g u v V rule: A2_DFS_A2_DFS_for.induct)
  case (1 self g u visited)
  from "1.IH"[OF "1.prems"] obtain V' where
    "A2_DFS_for self g u 0 (insert u visited) = Inr V'"
    "V' \<subseteq> insert u visited \<union> (A2_adj self g)\<^sup>* `` {u}" by blast
  then show ?case by (auto simp: A2_DFS.simps)
next
  case (2 self g u v visited)
  note wf = "2.prems"(1) and sq = "2.prems"(2) and u = "2.prems"(3)
  show ?case
  proof (cases "v < A2_n self")
    case False
    then show ?thesis by (subst A2_DFS_for.simps) simp
  next
    case lt: True
    let ?sv = "A2_states self ! v"
    from A2_wf_state2id[OF wf u] obtain iu where
      iu: "dict_getitem u (A2_state2id self) = Inr iu" "map_of (A2_state2id self) u = Some iu"
        "iu < A2_n self" by blast
    note unf = A2_DFS_for_unfold[OF wf sq u lt iu(2)]
    note idv = A2_wf_id2state[OF wf lt]
    have m: "matrix_get g iu v = Inr (g ! iu ! v)"
      by (rule matrix_get_square[OF sq iu(3) lt])
    have svin: "?sv \<in> set (A2_states self)"
      using wf lt by (simp add: A2_wf_def)
    show ?thesis
    proof (cases "?sv \<notin> visited \<and> g ! iu ! v \<noteq> []")
      case True
      then have nv: "?sv \<notin> visited" and ne: "g ! iu ! v \<noteq> []" by auto
      from "2.IH"(1)[OF lt idv nv iu(1) m ne wf sq svin] obtain W where
        W: "A2_DFS self g ?sv visited = Inr W" "W \<subseteq> visited \<union> (A2_adj self g)\<^sup>* `` {?sv}"
        by blast
      from "2.IH"(2)[OF lt idv nv iu(1) m ne W(1) wf sq u] obtain V' where
        V': "A2_DFS_for self g u (Suc v) W = Inr V'" "V' \<subseteq> W \<union> (A2_adj self g)\<^sup>* `` {u}"
        by blast
      have "(u, ?sv) \<in> A2_adj self g"
        using lt iu(2) ne by (auto simp: A2_adj_def)
      then have "(A2_adj self g)\<^sup>* `` {?sv} \<subseteq> (A2_adj self g)\<^sup>* `` {u}"
        by (auto intro: converse_rtrancl_into_rtrancl)
      with W(2) V'(2) have "V' \<subseteq> visited \<union> (A2_adj self g)\<^sup>* `` {u}" by blast
      with V'(1) W(1) True show ?thesis unfolding unf by simp
    next
      case False
      have "\<exists>V'. A2_DFS_for self g u (Suc v) visited = Inr V' \<and>
                 V' \<subseteq> visited \<union> (A2_adj self g)\<^sup>* `` {u}"
      proof (cases "?sv \<notin> visited")
        case True
        with False have "\<not> g ! iu ! v \<noteq> []" by simp
        from "2.IH"(3)[OF lt idv True iu(1) m this wf sq u] show ?thesis .
      next
        case False
        from "2.IH"(4)[OF lt idv False wf sq u] show ?thesis .
      qed
      with False show ?thesis unfolding unf by auto
    qed
  qed
qed

lemma disjoint_states_card:
  assumes dj: "disjoint_states sts tr" and in0: "s0 \<in> set sts"
    and sub: "V \<subseteq> (und_rel sts tr)\<^sup>* `` {s0}"
  shows "card V \<noteq> length sts"
proof -
  from sub have sub2: "V \<subseteq> set sts" using in0 by (auto dest: und_rel_rtrancl_states)
  from disjoint_states_unreached[OF dj in0] obtain z where "z \<in> set sts" "z \<notin> V"
    using sub by auto
  with sub2 have "V \<subset> set sts" by auto
  then have "card V < card (set sts)" by (intro psubset_card_mono) auto
  also have "\<dots> \<le> length sts" by (rule card_length)
  finally show ?thesis by simp
qed

lemma und_cell_syms_nonempty:
  "und_cell_syms idx ts i j \<noteq> [] \<Longrightarrow>
     \<exists>s1 a s2. (s1, a, s2) \<in> set ts \<and>
       ((idx s1 = Some i \<and> idx s2 = Some j) \<or> (idx s2 = Some i \<and> idx s1 = Some j))"
proof (induction ts)
  case Nil
  then show ?case by simp
next
  case (Cons t ts)
  obtain s1 a s2 where t: "t = (s1, a, s2)" by (cases t)
  show ?case
  proof (cases "und_cell_syms idx ts i j \<noteq> []")
    case True
    from Cons.IH[OF this] show ?thesis by auto
  next
    case False
    with Cons.prems have "(idx s1 = Some i \<and> idx s2 = Some j) \<or> (idx s2 = Some i \<and> idx s1 = Some j)"
      unfolding t by (auto split: if_splits)
    then show ?thesis unfolding t by auto
  qed
qed

lemma set_cell_syms:
  "set (cell_syms idx ts i j) = {a. \<exists>s1 s2. (s1, a, s2) \<in> set ts \<and> idx s1 = Some i \<and> idx s2 = Some j}"
proof (induction ts)
  case Nil
  then show ?case by simp
next
  case (Cons t ts)
  obtain s1 a s2 where t: "t = (s1, a, s2)" by (cases t)
  show ?case unfolding t by (simp add: Cons.IH) blast
qed

lemma kept_all:
  "\<forall>(s1, a, s2)\<in>set ts. s1 \<in> set sts \<and> s2 \<in> set sts \<Longrightarrow>
     filter (\<lambda>(s1, a, s2). s1 \<in> set sts \<and> s2 \<in> set sts) ts = ts"
  by (induction ts) auto

lemma A2_init_kept:
  assumes "A2_init sts al ini acc tr = Inr k"
  shows "kept sts tr = triples tr"
  unfolding kept_def using A2_init_graphs(2)[OF assms] by (rule kept_all)

lemma A2_adj_und_rel:
  assumes init: "A2_init sts al ini acc tr = Inr k"
  shows "A2_adj k (A2_undirected_graph k) \<subseteq> und_rel sts tr"
proof
  fix p assume p: "p \<in> A2_adj k (A2_undirected_graph k)"
  obtain u sv where puv: "p = (u, sv)" by (cases p)
  note f = A2_init_fields[OF init]
  note wf = A2_init_wf[OF init]
  let ?idx = "map_of (A2_state2id k)"
  from p puv obtain v iu where v: "v < length sts" "sts ! v = sv" and
    iu: "?idx u = Some iu" and ne: "A2_undirected_graph k ! iu ! v \<noteq> []"
    by (auto simp: A2_adj_def f(1) f(6))
  from wf iu have iu': "iu < length sts" "sts ! iu = u"
    by (auto simp: A2_wf_def f(1) f(6))
  from A2_init_graphs(5)[OF init] iu'(1) v(1) ne
  have "und_cell_syms ?idx (triples tr) iu v \<noteq> []" by simp
  from und_cell_syms_nonempty[OF this] obtain s1 a s2 where
    t: "(s1, a, s2) \<in> set (triples tr)" and
    c: "(?idx s1 = Some iu \<and> ?idx s2 = Some v) \<or> (?idx s2 = Some iu \<and> ?idx s1 = Some v)"
    by blast
  have nm: "\<And>s i. ?idx s = Some i \<Longrightarrow> sts ! i = s"
    using wf by (auto simp: A2_wf_def f(1))
  from c have "(s1 = u \<and> s2 = sv) \<or> (s2 = u \<and> s1 = sv)"
    using nm iu'(2) v(2) by blast
  with t show "p \<in> und_rel sts tr"
    unfolding puv und_rel_def A2_init_kept[OF init] by blast
qed

lemma check_symbols_ok:
  "well_formed tr \<Longrightarrow> \<forall>(s1, a, s2)\<in>set (triples tr). a \<in> set al \<Longrightarrow> check_symbols al tr = Inr []"
proof (induction tr)
  case Nil
  then show ?case by simp
next
  case (Cons el els)
  from Cons.prems(1) have "length (str_split el CHR ''>'') = 3" and wf: "well_formed els"
    by (simp_all add: well_formed_def)
  then obtain s1 a s2 where t: "unpack3 (str_split el CHR ''>'') = Inr (s1, a, s2)"
    using unpack3_Inr_iff[of "str_split el CHR ''>''"] by (metis prod_cases3)
  with Cons.prems(2) have a: "a \<in> set al" and rest: "\<forall>(s1, a, s2)\<in>set (triples els). a \<in> set al"
    by (simp_all add: triples_Cons)
  from Cons.IH[OF wf rest] t a show ?case by simp
qed

lemma check_endpoints_ok:
  "well_formed tr \<Longrightarrow> \<forall>(s1, a, s2)\<in>set (triples tr). s1 \<in> set sts \<and> s2 \<in> set sts
     \<Longrightarrow> check_endpoints sts tr = Inr []"
proof (induction tr)
  case Nil
  then show ?case by simp
next
  case (Cons el els)
  from Cons.prems(1) have "length (str_split el CHR ''>'') = 3" and wf: "well_formed els"
    by (simp_all add: well_formed_def)
  then obtain s1 a s2 where t: "unpack3 (str_split el CHR ''>'') = Inr (s1, a, s2)"
    using unpack3_Inr_iff[of "str_split el CHR ''>''"] by (metis prod_cases3)
  with Cons.prems(2) have a: "s1 \<in> set sts" "s2 \<in> set sts"
    and rest: "\<forall>(s1, a, s2)\<in>set (triples els). s1 \<in> set sts \<and> s2 \<in> set sts"
    by (simp_all add: triples_Cons)
  from Cons.IH[OF wf rest] t a show ?case by simp
qed

lemma A2_check_E4_ok:
  assumes init: "A2_init sts al ini acc tr = Inr k"
    and "set ini \<subseteq> set sts" "set acc \<subseteq> set sts"
  shows "A2_check_E4 k = Inr []"
proof -
  note f = A2_init_fields[OF init]
  have "find (\<lambda>el. el \<notin> set sts) ini = None" using assms(2) by (auto simp: find_None_iff)
  moreover have "find (\<lambda>el. el \<notin> set sts) acc = None" using assms(3) by (auto simp: find_None_iff)
  moreover have "check_endpoints sts tr = Inr []"
    by (rule check_endpoints_ok[OF A2_init_graphs(1,2)[OF init]])
  ultimately show ?thesis by (simp add: A2_check_E4_def f)
qed

lemma A2_check_E6_disjoint:
  assumes init: "A2_init sts al ini acc tr = Inr k"
    and ini: "ini \<noteq> []" "set ini \<subseteq> set sts" and dj: "disjoint_states sts tr"
  shows "A2_check_E6 k = Inr True"
proof -
  note f = A2_init_fields[OF init]
  from ini obtain s0 rest where s0: "ini = s0 # rest" "s0 \<in> set sts" by (cases ini) auto
  have sq: "square (A2_n k) (A2_undirected_graph k)"
    using A2_init_graphs(4)[OF init] by (simp add: f)
  from A2_DFS_sound(1)[OF A2_init_wf[OF init] sq, of s0 "{}"] s0(2) obtain V where
    V: "A2_DFS k (A2_undirected_graph k) s0 {} = Inr V"
      "V \<subseteq> (A2_adj k (A2_undirected_graph k))\<^sup>* `` {s0}"
    by (auto simp: f)
  have "(A2_adj k (A2_undirected_graph k))\<^sup>* \<subseteq> (und_rel sts tr)\<^sup>*"
    by (rule rtrancl_mono[OF A2_adj_und_rel[OF init]])
  with V(2) have "V \<subseteq> (und_rel sts tr)\<^sup>* `` {s0}" by blast
  from disjoint_states_card[OF dj s0(2) this] V(1) s0(1) show ?thesis
    by (simp add: A2_check_E6_def first_item_def f)
qed

lemma A2_validate_disjoint:
  assumes init: "A2_init sts al ini acc tr = Inr k"
    and "ini \<noteq> []" "acc \<noteq> []" "set ini \<subseteq> set sts" "set acc \<subseteq> set sts"
    and sym: "\<forall>(s1, a, s2)\<in>set (triples tr). a \<in> set al"
    and dj: "disjoint_states sts tr"
  shows "A2_validate k = Inr ''E6: Some states are disjoint''"
proof -
  note f = A2_init_fields[OF init]
  have e4: "A2_check_E4 k = Inr []" by (rule A2_check_E4_ok[OF init assms(4,5)])
  have e5: "A2_check_E5 k = Inr []"
    unfolding A2_check_E5_def f by (rule check_symbols_ok[OF A2_init_graphs(1)[OF init] sym])
  have e6: "A2_check_E6 k = Inr True" by (rule A2_check_E6_disjoint[OF init assms(2,4) dj])
  show ?thesis
    using assms(2,3) e4 e5 e6 by (simp add: A2_validate_def A2_check_E2_def A2_check_E3_def f)
qed

lemma disjoint_states_loops:
  assumes "\<forall>(s1, a, s2)\<in>set (kept sts tr). s1 = s2" and "x \<in> set sts" "y \<in> set sts" "x \<noteq> y"
  shows "disjoint_states sts tr"
proof -
  have "und_rel sts tr \<subseteq> Id" using assms(1) by (auto simp: und_rel_def)
  then have "(und_rel sts tr)\<^sup>* = Id" by (rule rtrancl_subset_Id)
  with assms(2-4) show ?thesis by (auto simp: disjoint_states_def)
qed

lemma kept_ex1: "kept [''A'', ''B''] [''A>x>A''] = [(''A'', ''x'', ''A'')]"
  by code_simp

lemma kept_ex2: "kept [''A'', ''B''] [''A>a>A''] = [(''A'', ''a'', ''A'')]"
  by code_simp

lemma kept_ex3: "kept [''A'', ''B''] [] = []"
  by code_simp

lemma disjoint_ex1: "disjoint_states [''A'', ''B''] [''A>x>A'']"
  by (rule disjoint_states_loops[of _ _ "''A''" "''B''"]) (simp_all add: kept_ex1)

lemma disjoint_ex2: "disjoint_states [''A'', ''B''] [''A>a>A'']"
  by (rule disjoint_states_loops[of _ _ "''A''" "''B''"]) (simp_all add: kept_ex2)

lemma disjoint_ex3: "disjoint_states [''A'', ''B''] []"
  by (rule disjoint_states_loops[of _ _ "''A''" "''B''"]) (simp_all add: kept_ex3)

text \<open>
  Claim C4, as stated, fails on the second program. The claim says that a graph with more
  than one connected component gives the disjoint-states error even when the
  no-initial-state or the undefined-symbol error applies too. In \<^verbatim>\<open>FSA.validate\<close> the
  disjointness check E6 is the fifth check: with two unconnected states and no initial
  state the answer is E2, and with the undeclared symbol \<^verbatim>\<open>x\<close> it is E5.
\<close>

theorem disjoint_states_counterexample:
  "disjoint_states [''A'', ''B''] [] \<and>
   (case A2_init [''A'', ''B''] [''a''] [] [''A''] [] of
      Inl e \<Rightarrow> False
    | Inr k \<Rightarrow> A2_check_E4 k = Inr [] \<and> A2_validate k = Inr ''E2: Initial state is not defined'') \<and>
   disjoint_states [''A'', ''B''] [''A>x>A''] \<and>
   (case A2_init [''A'', ''B''] [''a''] [''A''] [''A''] [''A>x>A''] of
      Inl e \<Rightarrow> False
    | Inr k \<Rightarrow> A2_check_E4 k = Inr [] \<and>
        A2_validate k = Inr ''E5: A transition 'x' is not represented in the alphabet'')"
proof -
  have 1: "case A2_init [''A'', ''B''] [''a''] [] [''A''] [] of
      Inl e \<Rightarrow> False
    | Inr k \<Rightarrow> A2_check_E4 k = Inr [] \<and> A2_validate k = Inr ''E2: Initial state is not defined''"
    by code_simp
  have 2: "case A2_init [''A'', ''B''] [''a''] [''A''] [''A''] [''A>x>A''] of
      Inl e \<Rightarrow> False
    | Inr k \<Rightarrow> A2_check_E4 k = Inr [] \<and>
        A2_validate k = Inr ''E5: A transition 'x' is not represented in the alphabet''"
    by code_simp
  from 1 2 disjoint_ex1 disjoint_ex3 show ?thesis by blast
qed

text \<open>
  Claim C4, amended. In the validator, for a fresh object with at least one state,
  declared initial and accepting states and transitions of three fields each, a graph
  of declared states with more than one connected component gives E2, the
  disjoint-states error, whatever the symbols and whether or not an initial state
  exists. In the translator the disjoint-states error E6 is the answer once the
  checks before it pass: some initial and some accepting state, all of them declared,
  and every symbol in the alphabet.
\<close>

theorem disjoint_states_error:
  "(sts \<noteq> [] \<and> set ini \<subseteq> set sts \<and> set fin \<subseteq> set sts \<and> well_formed tr \<and>
      disjoint_states sts tr \<longrightarrow>
    A1_validate_result (A1_init sts al ini fin tr) = Inr (''E2: Some states are disjoint'', [], []))
   \<and> (A2_init sts' al' ini' acc' tr' = Inr k \<and> ini' \<noteq> [] \<and> acc' \<noteq> [] \<and>
        set ini' \<subseteq> set sts' \<and> set acc' \<subseteq> set sts' \<and>
        (\<forall>(s1, a, s2)\<in>set (triples tr'). a \<in> set al') \<and> disjoint_states sts' tr' \<longrightarrow>
      A2_validate k = Inr ''E6: Some states are disjoint'')"
  using A1_validate_disjoint[of sts ini fin tr al]
    A2_validate_disjoint[of sts' al' ini' acc' tr' k]
  by blast

theorem disjoint_states_error_witness:
  "([''A'', ''B''] \<noteq> [] \<and> set [] \<subseteq> set [''A'', ''B''] \<and> well_formed [''A>x>A''] \<and>
      disjoint_states [''A'', ''B''] [''A>x>A''] \<and>
    A1_validate_result (A1_init [''A'', ''B''] [''a''] [] [] [''A>x>A'']) =
      Inr (''E2: Some states are disjoint'', [], []))
   \<and> (case A2_init [''A'', ''B''] [''a''] [''A''] [''A''] [''A>a>A''] of
        Inl e \<Rightarrow> False
      | Inr k \<Rightarrow>
          set [''A''] \<subseteq> set [''A'', ''B''] \<and>
          (\<forall>(s1, a, s2)\<in>set (triples [''A>a>A'']). a \<in> set [''a'']) \<and>
          disjoint_states [''A'', ''B''] [''A>a>A''] \<and>
          A2_validate k = Inr ''E6: Some states are disjoint'')"
proof -
  have wf: "well_formed [''A>x>A'']" by code_simp
  have tr: "triples [''A>a>A''] = [(''A'', ''a'', ''A'')]" by code_simp
  have "case A2_init [''A'', ''B''] [''a''] [''A''] [''A''] [''A>a>A''] of
          Inl e \<Rightarrow> False | Inr k \<Rightarrow> True"
    by code_simp
  then obtain k where k: "A2_init [''A'', ''B''] [''a''] [''A''] [''A''] [''A>a>A''] = Inr k"
    by (auto split: sum.splits)
  show ?thesis
    using disjoint_states_error[of "[''A'', ''B'']" "[]" "[]" "[''A>x>A'']" "[''a'']"
        "[''A'', ''B'']" "[''a'']" "[''A'']" "[''A'']" "[''A>a>A'']" k]
      wf tr k disjoint_ex1 disjoint_ex2
    by simp
qed

subsection \<open>The completeness classification\<close>

lemma check_symbols_declared:
  "check_symbols al tr = Inr [] \<Longrightarrow> \<forall>(s1, a, s2)\<in>set (triples tr). a \<noteq> []
     \<Longrightarrow> \<forall>(s1, a, s2)\<in>set (triples tr). a \<in> set al"
proof (induction tr)
  case Nil
  then show ?case by simp
next
  case (Cons el els)
  from Cons.prems(1) obtain s1 a s2 where t: "unpack3 (str_split el CHR ''>'') = Inr (s1, a, s2)"
    by (auto split: sum.splits)
  from Cons.prems(2) t have ne: "a \<noteq> []" and rest: "\<forall>(s1, a, s2)\<in>set (triples els). a \<noteq> []"
    by (simp_all add: triples_Cons)
  from Cons.prems(1) t ne have a: "a \<in> set al" and r: "check_symbols al els = Inr []"
    by (auto split: if_splits)
  from Cons.IH[OF r rest] a t show ?case by (simp add: triples_Cons)
qed

text \<open>What a result without error says about the run of validate\<close>

lemma A1_validate_result_ok:
  assumes "A1_validate_result self = Inr ([], c, w)"
  shows "\<exists>self1 w2. A1_create_graphs self = Inr self1 \<and> A1_check_E3 self1 = Inr [] \<and>
           A1_check_W2 self1 = Inr w2 \<and> c = A1_completion self1 \<and> w = A1_warnings self1 w2"
  using assms
  by (auto simp: A1_validate_result_def A1_validate_def Let_def split: sum.splits if_splits)

lemma A1_fresh_graph:
  assumes "A1_create_graphs (A1_init sts al ini fin tr) = Inr self1"
  shows "well_formed tr" "A1_alpha self1 = al" "A1_trans self1 = tr" "A1_states self1 = sts"
    "A1_graph self1 = fst (built sts tr ([], []))"
proof -
  let ?v = "A1_init sts al ini fin tr"
  from A1_create_graphs_well_formed[OF assms] show wf: "well_formed tr" by (simp add: A1_init_def)
  then have "well_formed (A1_trans ?v)" by (simp add: A1_init_def)
  from A1_create_graphs_eq[OF this] assms
  show "A1_alpha self1 = al" "A1_trans self1 = tr" "A1_states self1 = sts"
    "A1_graph self1 = fst (built sts tr ([], []))"
    by (auto simp: A1_init_def)
qed

text \<open>The loop over the graph, in terms of the declared states\<close>

lemma list_ex_built:
  "list_ex (\<lambda>(u, es). P es) (fst (built sts tr ([], []))) \<longleftrightarrow>
     (\<exists>u\<in>set sts. P (out_edges (kept sts tr) u))"
proof -
  let ?g = "fst (built sts tr ([], []))"
  have d: "distinct (map fst ?g)" by (rule distinct_built) simp
  have "list_ex (\<lambda>(u, es). P es) ?g \<longleftrightarrow> (\<exists>u es. (u, es) \<in> set ?g \<and> P es)"
    by (auto simp: list_ex_iff)
  also have "\<dots> \<longleftrightarrow> (\<exists>u. dict_in u ?g \<and> P (lookup0 ?g u))"
    using dict_entry_iff[OF d] by auto
  also have "\<dots> \<longleftrightarrow> (\<exists>u\<in>set sts. P (out_edges (kept sts tr) u))"
    by (auto simp: dict_in_built lookup0_built)
  finally show ?thesis .
qed

lemma snd_out_edges:
  "set (map snd (out_edges (kept sts tr) u)) = out_symbols sts tr u"
  by (auto simp: set_out_edges out_symbols_def image_iff)

lemma A1_completion_fresh:
  assumes "A1_create_graphs (A1_init sts al ini fin tr) = Inr self1"
  shows "A1_completion self1 =
     (if \<exists>u\<in>set sts. card (out_symbols sts tr u) < length al
      then ''FSA is incomplete'' else ''FSA is complete'')"
  unfolding A1_completion_def A1_fresh_graph[OF assms] list_ex_built snd_out_edges ..

lemma A1_check_W3_fresh:
  assumes "A1_create_graphs (A1_init sts al ini fin tr) = Inr self1"
  shows "A1_check_W3 self1 \<longleftrightarrow>
     (\<exists>u\<in>set sts. \<exists>el\<in>set al. count_list (map snd (out_edges (kept sts tr) u)) el > 1)"
  unfolding A1_check_W3_def A1_fresh_graph[OF assms] list_ex_built
  by (simp add: list_ex_iff)

lemma out_symbols_alpha:
  "\<forall>(s1, a, s2)\<in>set (triples tr). a \<in> set al \<Longrightarrow> out_symbols sts tr u \<subseteq> set al"
  by (auto simp: out_symbols_def kept_def)

lemma card_less_iff_neq:
  assumes "S \<subseteq> set al" "distinct al"
  shows "card S < length al \<longleftrightarrow> S \<noteq> set al"
proof -
  have c: "card (set al) = length al" using assms(2) by (rule distinct_card)
  show ?thesis
  proof
    assume "card S < length al"
    with c show "S \<noteq> set al" by auto
  next
    assume "S \<noteq> set al"
    with assms(1) have "S \<subset> set al" by auto
    then have "card S < card (set al)" by (intro psubset_card_mono) auto
    with c show "card S < length al" by simp
  qed
qed

lemma A1_completion_meaning:
  assumes r: "A1_validate_result (A1_init sts al ini fin tr) = Inr ([], c, w)"
    and d: "distinct al" and ne: "\<forall>(s1, a, s2)\<in>set (triples tr). a \<noteq> []"
  shows "(c = ''FSA is complete'' \<longleftrightarrow> (\<forall>u\<in>set sts. out_symbols sts tr u = set al)) \<and>
         (c = ''FSA is incomplete'' \<longleftrightarrow> (\<exists>u\<in>set sts. out_symbols sts tr u \<noteq> set al))"
proof -
  from A1_validate_result_ok[OF r] obtain self1 w2 where
    cg: "A1_create_graphs (A1_init sts al ini fin tr) = Inr self1" and
    e3: "A1_check_E3 self1 = Inr []" and c: "c = A1_completion self1" by blast
  note f = A1_fresh_graph[OF cg]
  from e3 have "check_symbols al tr = Inr []" by (simp add: A1_check_E3_def f)
  from check_symbols_declared[OF this ne] have sub: "\<And>u. out_symbols sts tr u \<subseteq> set al"
    by (rule out_symbols_alpha)
  have "(\<exists>u\<in>set sts. card (out_symbols sts tr u) < length al) \<longleftrightarrow>
        (\<exists>u\<in>set sts. out_symbols sts tr u \<noteq> set al)"
    using card_less_iff_neq[OF sub d] by blast
  then show ?thesis unfolding c A1_completion_fresh[OF cg] by auto
qed

lemma triples_append: "triples (xs @ ys) = triples xs @ triples ys"
  by (simp add: triples_def)

lemma kept_append: "kept sts (xs @ ys) = kept sts xs @ kept sts ys"
  by (simp add: kept_def triples_append)

lemma out_edges_append: "out_edges (xs @ ys) u = out_edges xs u @ out_edges ys u"
  by (simp add: out_edges_def)

lemma is_edge_out_edges:
  assumes "is_edge sts el"
  shows "\<exists>s1 a s2. s1 \<in> set sts \<and> out_edges (kept sts [el]) s1 = [(s2, a)]"
proof -
  from assms obtain s1 a s2 where t: "unpack3 (str_split el CHR ''>'') = Inr (s1, a, s2)"
    and s: "s1 \<in> set sts" "s2 \<in> set sts"
    by (auto simp: is_edge_def split: sum.splits)
  then have "kept sts [el] = [(s1, a, s2)]" by (simp add: kept_def triples_Cons)
  then have "out_edges (kept sts [el]) s1 = [(s2, a)]" by (simp add: out_edges_def)
  with s(1) show ?thesis by blast
qed

lemma remove_edge_out_edges:
  assumes "i < length tr" "is_edge sts (tr ! i)"
  shows "\<exists>s1 A B x. s1 \<in> set sts \<and> out_edges (kept sts tr) s1 = A @ [x] @ B \<and>
           out_edges (kept sts (remove_edge i tr)) s1 = A @ B"
proof -
  from is_edge_out_edges[OF assms(2)] obtain s1 a s2 where
    s1: "s1 \<in> set sts" and o: "out_edges (kept sts [tr ! i]) s1 = [(s2, a)]" by blast
  have tr: "tr = take i tr @ [tr ! i] @ drop (Suc i) tr"
    using assms(1) by (simp add: id_take_nth_drop)
  let ?A = "out_edges (kept sts (take i tr)) s1" and ?B = "out_edges (kept sts (drop (Suc i) tr)) s1"
  have "out_edges (kept sts tr) s1 = ?A @ [(s2, a)] @ ?B"
    by (subst tr) (simp only: kept_append out_edges_append o)
  moreover have "out_edges (kept sts (remove_edge i tr)) s1 = ?A @ ?B"
    by (simp add: remove_edge_def kept_append out_edges_append)
  ultimately show ?thesis using s1 by blast
qed

lemma count_le_1_distinct:
  "\<forall>x\<in>set L. count_list L x \<le> 1 \<Longrightarrow> distinct L"
proof (induction L)
  case Nil
  then show ?case by simp
next
  case (Cons y L)
  have le: "count_list L x \<le> count_list (y # L) x" for x by simp
  have "y \<notin> set L"
  proof
    assume "y \<in> set L"
    then have "count_list L y \<noteq> 0" by (simp only: count_list_0_iff not_not)
    then have "count_list (y # L) y \<ge> 2" by simp
    moreover have "y \<in> set (y # L)" by simp
    with Cons.prems have "count_list (y # L) y \<le> 1" by blast
    ultimately show False by linarith
  qed
  moreover have "\<forall>x\<in>set L. count_list L x \<le> 1"
  proof
    fix x assume "x \<in> set L"
    then have "x \<in> set (y # L)" by simp
    with Cons.prems have "count_list (y # L) x \<le> 1" by blast
    with le[of x] show "count_list L x \<le> 1" by (rule le_trans)
  qed
  ultimately show ?case using Cons.IH by simp
qed

lemma A1_remove_edge_incomplete:
  assumes r: "A1_validate_result (A1_init sts al ini fin tr) = Inr ([], ''FSA is complete'', w)"
    and w3: "''W3: FSA is nondeterministic'' \<notin> set w"
    and ne: "\<forall>(s1, a, s2)\<in>set (triples tr). a \<noteq> []"
    and i: "i < length tr" "is_edge sts (tr ! i)"
    and r': "A1_validate_result (A1_init sts al ini fin (remove_edge i tr)) = Inr ([], c', w')"
  shows "c' = ''FSA is incomplete''"
proof -
  from A1_validate_result_ok[OF r] obtain self1 w2 where
    cg: "A1_create_graphs (A1_init sts al ini fin tr) = Inr self1" and
    e3: "A1_check_E3 self1 = Inr []" and c: "''FSA is complete'' = A1_completion self1" and
    w: "w = A1_warnings self1 w2" by blast
  note f = A1_fresh_graph[OF cg]
  from e3 have "check_symbols al tr = Inr []" by (simp add: A1_check_E3_def f)
  note decl = check_symbols_declared[OF this ne]
  from w3 w have nw3: "\<not> A1_check_W3 self1" by (auto simp: A1_warnings_def)
  from c have compl: "\<And>u. u \<in> set sts \<Longrightarrow> \<not> card (out_symbols sts tr u) < length al"
    unfolding A1_completion_fresh[OF cg] by (auto split: if_splits)
  from remove_edge_out_edges[OF i] obtain s1 A B x where
    s1: "s1 \<in> set sts" and o: "out_edges (kept sts tr) s1 = A @ [x] @ B" and
    o': "out_edges (kept sts (remove_edge i tr)) s1 = A @ B" by blast
  let ?L = "map snd (out_edges (kept sts tr) s1)"
  have sub: "set ?L \<subseteq> set al"
    unfolding snd_out_edges by (rule out_symbols_alpha[OF decl])
  have "\<forall>x\<in>set ?L. count_list ?L x \<le> 1"
    using nw3 s1 sub unfolding A1_check_W3_fresh[OF cg] by (auto simp: not_less)
  then have dist: "distinct ?L" by (rule count_le_1_distinct)
  have "length ?L = card (set ?L)" by (rule distinct_card[OF dist, symmetric])
  also have "\<dots> \<le> card (set al)" using sub by (intro card_mono) auto
  also have "\<dots> \<le> length al" by (rule card_length)
  finally have len: "length ?L \<le> length al" .
  have "card (out_symbols sts (remove_edge i tr) s1)
      = card (set (map snd (out_edges (kept sts (remove_edge i tr)) s1)))"
    by (simp only: snd_out_edges)
  also have "\<dots> \<le> length (map snd (out_edges (kept sts (remove_edge i tr)) s1))"
    by (rule card_length)
  also have "\<dots> < length ?L" by (simp add: o o')
  finally have less: "card (out_symbols sts (remove_edge i tr) s1) < length al"
    using len by simp
  from A1_validate_result_ok[OF r'] obtain self1' where
    cg': "A1_create_graphs (A1_init sts al ini fin (remove_edge i tr)) = Inr self1'" and
    c': "c' = A1_completion self1'" by blast
  show ?thesis
    unfolding c' A1_completion_fresh[OF cg'] using less s1 by auto
qed

text \<open>
  Claim C9, as stated, fails. The claim says that removing any single edge from a
  complete automaton makes it incomplete. The classification counts the distinct
  symbols that leave a state, so with two transitions on \<^verbatim>\<open>a\<close> out of \<^verbatim>\<open>A\<close>
  one of them can go and \<^verbatim>\<open>A\<close> still has an edge for \<^verbatim>\<open>a\<close>: both automata
  below pass every hard check and both are classified complete.
\<close>

theorem remove_edge_counterexample:
  "A1_validate_result (A1_init [''A'', ''B''] [''a''] [''A''] [''B'']
       [''A>a>A'', ''A>a>B'', ''B>a>A'']) =
     Inr ([], ''FSA is complete'', [''W3: FSA is nondeterministic'']) \<and>
   is_edge [''A'', ''B''] ([''A>a>A'', ''A>a>B'', ''B>a>A''] ! 0) \<and>
   remove_edge 0 [''A>a>A'', ''A>a>B'', ''B>a>A''] = [''A>a>B'', ''B>a>A''] \<and>
   A1_validate_result (A1_init [''A'', ''B''] [''a''] [''A''] [''B'']
       (remove_edge 0 [''A>a>A'', ''A>a>B'', ''B>a>A''])) =
     Inr ([], ''FSA is complete'', [])"
  by code_simp

text \<open>
  Claim C9, amended. For every automaton on which \<^verbatim>\<open>validate\<close> reports no error,
  whose alphabet lists no symbol twice and whose transitions carry non-empty symbols:
  the classification is complete exactly when for every declared state the set of
  symbols on its transitions between declared states equals the alphabet, and it is
  incomplete exactly when some declared state has fewer. Removing one transition between
  declared states from an automaton that is classified complete and gets no
  nondeterminism warning gives an automaton that is classified incomplete whenever
  \<^verbatim>\<open>validate\<close> reports no error on it.
\<close>

theorem completeness_classification:
  "(A1_validate_result (A1_init sts al ini fin tr) = Inr ([], c, w) \<and> distinct al \<and>
      (\<forall>(s1, a, s2)\<in>set (triples tr). a \<noteq> []) \<longrightarrow>
    (c = ''FSA is complete'' \<longleftrightarrow> (\<forall>u\<in>set sts. out_symbols sts tr u = set al)) \<and>
    (c = ''FSA is incomplete'' \<longleftrightarrow> (\<exists>u\<in>set sts. out_symbols sts tr u \<noteq> set al)))
   \<and> (A1_validate_result (A1_init sts al ini fin tr) = Inr ([], ''FSA is complete'', w) \<and>
        ''W3: FSA is nondeterministic'' \<notin> set w \<and>
        (\<forall>(s1, a, s2)\<in>set (triples tr). a \<noteq> []) \<and> i < length tr \<and> is_edge sts (tr ! i) \<and>
        A1_validate_result (A1_init sts al ini fin (remove_edge i tr)) = Inr ([], c', w') \<longrightarrow>
      c' = ''FSA is incomplete'')"
  using A1_completion_meaning[of sts al ini fin tr c w]
    A1_remove_edge_incomplete[of sts al ini fin tr w i c' w']
  by blast

theorem completeness_classification_witness:
  "A1_validate_result (A1_init [''A'', ''B''] [''a''] [''A''] [''B''] [''A>a>B'', ''B>a>A'']) =
     Inr ([], ''FSA is complete'', []) \<and>
   distinct [''a''] \<and>
   list_all (\<lambda>(s1, a, s2). a \<noteq> []) (triples [''A>a>B'', ''B>a>A'']) \<and>
   out_symbols [''A'', ''B''] [''A>a>B'', ''B>a>A''] ''A'' = set [''a''] \<and>
   out_symbols [''A'', ''B''] [''A>a>B'', ''B>a>A''] ''B'' = set [''a''] \<and>
   ''W3: FSA is nondeterministic'' \<notin> set [] \<and>
   1 < length [''A>a>B'', ''B>a>A''] \<and> is_edge [''A'', ''B''] ([''A>a>B'', ''B>a>A''] ! 1) \<and>
   A1_validate_result (A1_init [''A'', ''B''] [''a''] [''A''] [''B'']
       (remove_edge 1 [''A>a>B'', ''B>a>A''])) =
     Inr ([], ''FSA is incomplete'', [])"
proof -
  have r: "A1_validate_result (A1_init [''A'', ''B''] [''a''] [''A''] [''B''] [''A>a>B'', ''B>a>A'']) =
     Inr ([], ''FSA is complete'', [])" by code_simp
  have r': "A1_validate_result (A1_init [''A'', ''B''] [''a''] [''A''] [''B'']
       (remove_edge 1 [''A>a>B'', ''B>a>A''])) =
     Inr ([], ''FSA is incomplete'', [])"
    by code_simp
  have t: "triples [''A>a>B'', ''B>a>A''] = [(''A'', ''a'', ''B''), (''B'', ''a'', ''A'')]"
    by code_simp
  have e: "is_edge [''A'', ''B''] ([''A>a>B'', ''B>a>A''] ! 1)" by code_simp
  show ?thesis
    using completeness_classification[of "[''A'', ''B'']" "[''a'']" "[''A'']" "[''B'']"
        "[''A>a>B'', ''B>a>A'']" "''FSA is complete''" "[]" 1 "''FSA is incomplete''" "[]"]
      r r' t e
    by simp
qed

subsection \<open>Validation errors returned by Kleene\<close>


lemma map_err_total:
  "\<forall>x\<in>set xs. f x = Inr (h x) \<Longrightarrow> map_err f xs = Inr (map h xs)"
  by (induction xs) auto

lemma count_concat_append:
  "count_list (concat (map (\<lambda>v. X v @ Y v) vs)) c =
     count_list (concat (map X vs)) c + count_list (concat (map Y vs)) c"
  by (induction vs) auto

lemma count_concat_single:
  "count_list (concat (map (\<lambda>v. if P \<and> j = v then xs else []) [0..<n])) c =
     (if P \<and> j < n then count_list xs c else 0)"
  by (induction n) auto

lemma row_syms_simps [simp]:
  "row_syms idx [] u = []"
  "row_syms idx ((s1, a, s2) # ts) u = (if idx s1 = Some u then [a] else []) @ row_syms idx ts u"
  by (simp_all add: row_syms_def)

lemma count_row_cells:
  assumes "\<forall>(s1, a, s2)\<in>set ts. \<exists>j<n. idx s2 = Some j"
  shows "count_list (concat (map (\<lambda>v. cell_syms idx ts u v) [0..<n])) c =
         count_list (row_syms idx ts u) c"
  using assms
proof (induction ts)
  case Nil
  have "concat (map (\<lambda>v. []) [0..<n]) = ([] :: string list)" by (induction n) auto
  then show ?case by simp
next
  case (Cons t ts)
  obtain s1 a s2 where t: "t = (s1, a, s2)" by (cases t)
  from Cons.prems obtain j where j: "j < n" "idx s2 = Some j" unfolding t by auto
  have rest: "\<forall>(s1, a, s2)\<in>set ts. \<exists>j<n. idx s2 = Some j" using Cons.prems by auto
  have "(\<lambda>v. cell_syms idx (t # ts) u v) =
      (\<lambda>v. (if idx s1 = Some u \<and> j = v then [a] else []) @ cell_syms idx ts u v)"
    unfolding t using j(2) by (auto simp: fun_eq_iff)
  then have "count_list (concat (map (\<lambda>v. cell_syms idx (t # ts) u v) [0..<n])) c =
      count_list (concat (map (\<lambda>v. if idx s1 = Some u \<and> j = v then [a] else []) [0..<n])) c +
      count_list (concat (map (\<lambda>v. cell_syms idx ts u v) [0..<n])) c"
    by (simp only: count_concat_append)
  also have "\<dots> = (if idx s1 = Some u then count_list [a] c else 0) + count_list (row_syms idx ts u) c"
    unfolding Cons.IH[OF rest] count_concat_single using j(1) by simp
  also have "\<dots> = count_list (row_syms idx (t # ts) u) c"
    unfolding t by simp
  finally show ?case .
qed



lemma A2_row_symbols_eq:
  assumes init: "A2_init sts al ini acc tr = Inr k" and u: "u < length sts"
  shows "\<exists>lst. A2_row_symbols k u = Inr lst \<and>
           (\<forall>c. count_list lst c = count_list (row_syms (map_of (A2_state2id k)) (triples tr) u) c)"
proof -
  note f = A2_init_fields[OF init]
  let ?idx = "map_of (A2_state2id k)" and ?n = "length sts"
  have sq: "square ?n (A2_graph k)" by (rule A2_init_graphs(3)[OF init])
  have "\<forall>v\<in>set [0..<?n]. matrix_get (A2_graph k) u v = Inr (A2_graph k ! u ! v)"
    using matrix_get_square[OF sq u] by simp
  from map_err_total[OF this]
  have r: "A2_row_symbols k u = Inr (concat (map (\<lambda>v. A2_graph k ! u ! v) [0..<?n]))"
    by (simp add: A2_row_symbols_def f)
  have cells: "map (\<lambda>v. A2_graph k ! u ! v) [0..<?n] = map (\<lambda>v. cell_syms ?idx (triples tr) u v) [0..<?n]"
    using A2_init_graphs(5)[OF init] u by simp
  have wf: "A2_wf k" by (rule A2_init_wf[OF init])
  have "\<forall>(s1, a, s2)\<in>set (triples tr). \<exists>j<?n. ?idx s2 = Some j"
  proof (clarify)
    fix s1 a s2 assume "(s1, a, s2) \<in> set (triples tr)"
    with A2_init_graphs(2)[OF init] have "s2 \<in> set (A2_states k)" by (auto simp: f)
    from A2_wf_state2id[OF wf this] show "\<exists>j<?n. ?idx s2 = Some j" by (auto simp: f)
  qed
  from count_row_cells[OF this] r cells show ?thesis by simp
qed

lemma A2_check_E7_from_returns:
  assumes init: "A2_init sts al ini acc tr = Inr k" and "\<forall>u\<in>set us. u < length sts"
  shows "\<exists>b. A2_check_E7_from k us = Inr b"
  using assms(2)
proof (induction us)
  case Nil
  show ?case by auto
next
  case (Cons u us)
  from Cons.prems have u: "u < length sts" by simp
  from A2_row_symbols_eq[OF init u] obtain lst where "A2_row_symbols k u = Inr lst" by blast
  with Cons show ?case by auto
qed










end
